theory Spec2Isabelle
  imports Main "HOL-Library.Word"
begin

section \<open>The contract InsiderRingAnalysis (src/contracts/InsiderRingAnalysis.sol)\<close>

text \<open>
  The contract is embedded function by function. A Solidity \<open>uint256\<close> is a \<open>256 word\<close>, a
  \<open>uint32\<close> a \<open>32 word\<close>. The contract is compiled with \<open>pragma solidity ^0.8.24\<close>, so
  \<open>+\<close>, \<open>-\<close>, \<open>*\<close> and \<open>++\<close> are checked: on overflow or underflow the call reverts with
  \<open>Panic(0x11)\<close>, and an array access out of bounds reverts with \<open>Panic(0x32)\<close>. The
  allocation \<open>new T[](n)\<close> of a memory array reverts with \<open>Panic(0x41)\<close> when \<open>n\<close> exceeds
  \<open>0xffffffffffffffff\<close>; \<open>initializeAdjacencyMatrix\<close>, where the caller chooses \<open>n\<close>, carries
  this check; the other allocations take their length from an array that is already
  held (plus or minus one) or from \<open>matrixSize\<close>. A call that
  reverts changes nothing, so every state-changing function returns \<open>error + state\<close> and the
  caller keeps the old state on \<open>Inl\<close>. Array lengths and loop counters are natural numbers
  (a loop counter \<open>i\<close> stays below its bound, so \<open>i++\<close> cannot overflow). Gas and memory
  exhaustion are outside the model. The modifier \<open>onlyRegulator\<close> has the empty body
  \<open>_;\<close> and checks nothing, so every caller may call every function.
\<close>

type_synonym uint256 = "256 word"
type_synonym uint32 = "32 word"
type_synonym bytes32 = "256 word"

text \<open>
  The ways a call can revert. The first five are the \<open>require\<close> messages of the contract:
  \<open>InvalidIndex\<close> is "Invalid index" (the specification's IndexOutOfRange),
  \<open>AnalysisNotComplete\<close> is "Analysis not complete", \<open>AlreadyRevealed\<close> is "Already revealed",
  \<open>InvalidRequest\<close> is "Invalid request", \<open>MatrixNotInitialized\<close> is "Matrix not initialized".
  \<open>SignaturesRevert\<close> is a revert inside \<open>FHE.checkSignatures\<close> (the specification's
  ProofVerificationFailed), \<open>DecodeRevert\<close> a revert inside \<open>abi.decode\<close>.
\<close>

datatype error =
    InvalidIndex
  | AnalysisNotComplete
  | AlreadyRevealed
  | InvalidRequest
  | MatrixNotInitialized
  | Panic_0x11
  | Panic_0x32
  | Panic_0x41
  | SignaturesRevert
  | DecodeRevert

text \<open>
  The library \<open>@fhevm/solidity/lib/FHE.sol\<close> and the ABI decoder are not part of the
  repository; the contract is embedded over them as a parameter. \<open>'e\<close> is the type
  \<open>euint32\<close>, \<open>'b\<close> the type \<open>ebool\<close>, \<open>'y\<close> the type \<open>bytes\<close> of the callback's
  arguments. \<open>e_zero\<close> is the zero value of \<open>euint32\<close>, which a fresh array and an unset
  mapping entry hold. \<open>fhe_checkSignatures\<close> is \<open>False\<close> where the library reverts,
  \<open>abi_decode\<close> is \<open>None\<close> where \<open>abi.decode(cleartexts, (uint32[]))\<close> reverts. The
  other operations of the library are total functions, as the specification (section 6)
  takes them to be. The source indexes arrays by \<open>FHE.decrypt(x)\<close>; \<open>fhe_decrypt\<close> gives
  the \<open>uint32\<close> that is converted to the index.
\<close>

record ('e, 'b, 'y) env =
  e_zero :: 'e
  fhe_asEuint32 :: "uint32 \<Rightarrow> 'e"
  fhe_toBytes32 :: "'e \<Rightarrow> bytes32"
  fhe_ne :: "'e \<Rightarrow> 'e \<Rightarrow> 'b"
  fhe_gt :: "'e \<Rightarrow> 'e \<Rightarrow> 'b"
  fhe_and :: "'b \<Rightarrow> 'b \<Rightarrow> 'b"
  fhe_select :: "'b \<Rightarrow> 'e \<Rightarrow> 'e \<Rightarrow> 'e"
  fhe_add :: "'e \<Rightarrow> 'e \<Rightarrow> 'e"
  fhe_decrypt :: "'e \<Rightarrow> uint32"
  fhe_checkSignatures :: "uint256 \<Rightarrow> 'y \<Rightarrow> 'y \<Rightarrow> bool"
  abi_decode :: "'y \<Rightarrow> uint32 list option"

subsection \<open>Structs, events and storage\<close>

record 'e EncryptedTransaction =
  tx_id :: uint256
  encryptedTraderId :: 'e
  encryptedCounterparty :: 'e
  encryptedSecurity :: 'e
  encryptedAmount :: 'e
  encryptedTimestamp :: 'e
  submissionTime :: uint256

record 'e AnalysisResult =
  encryptedRingMembers :: "'e list"
  encryptedRiskScore :: 'e
  isComplete :: bool

record DecryptedResult =
  ringMembers :: "uint32 list"
  riskScore :: uint32
  isRevealed :: bool

datatype event =
    TransactionSubmitted uint256 uint256
  | AnalysisStarted uint256
  | AnalysisCompleted uint256
  | ResultRevealed uint256

text \<open>
  The storage of the contract. A Solidity mapping is total: a key never written reads as
  the zero value of the value type, so a mapping is a function. \<open>events\<close> is the log of the
  emitted events, oldest first.
\<close>

record 'e storage =
  transactionCount :: uint256
  encryptedTransactions :: "uint256 \<Rightarrow> 'e EncryptedTransaction"
  analysisResults :: "uint256 \<Rightarrow> 'e AnalysisResult"
  decryptedResults :: "uint256 \<Rightarrow> DecryptedResult"
  encryptedAdjacencyMatrix :: "'e list"
  matrixSize :: uint256
  requestToAnalysisId :: "uint256 \<Rightarrow> uint256"
  events :: "event list"

text \<open>The storage of the freshly deployed contract: every slot is zero.\<close>

definition deployed :: "('e, 'b, 'y) env \<Rightarrow> 'e storage" where
  "deployed env =
     \<lparr>transactionCount = 0,
      encryptedTransactions = (\<lambda>_. \<lparr>tx_id = 0, encryptedTraderId = e_zero env,
         encryptedCounterparty = e_zero env, encryptedSecurity = e_zero env,
         encryptedAmount = e_zero env, encryptedTimestamp = e_zero env, submissionTime = 0\<rparr>),
      analysisResults = (\<lambda>_. \<lparr>encryptedRingMembers = [], encryptedRiskScore = e_zero env,
         isComplete = False\<rparr>),
      decryptedResults = (\<lambda>_. \<lparr>ringMembers = [], riskScore = 0, isRevealed = False\<rparr>),
      encryptedAdjacencyMatrix = [],
      matrixSize = 0,
      requestToAnalysisId = (\<lambda>_. 0),
      events = []\<rparr>"

subsection \<open>Checked array access\<close>

definition array_get :: "'a list \<Rightarrow> nat \<Rightarrow> error + 'a" where
  "array_get xs i = (if i < length xs then Inr (xs ! i) else Inl Panic_0x32)"

definition array_set :: "'a list \<Rightarrow> nat \<Rightarrow> 'a \<Rightarrow> error + 'a list" where
  "array_set xs i v = (if i < length xs then Inr (xs[i := v]) else Inl Panic_0x32)"

subsection \<open>submitEncryptedTransaction\<close>

text \<open>\<open>now\<close> is \<open>block.timestamp\<close>. \<open>transactionCount++\<close> is checked.\<close>

definition submitEncryptedTransaction ::
  "uint256 \<Rightarrow> 'e \<Rightarrow> 'e \<Rightarrow> 'e \<Rightarrow> 'e \<Rightarrow> 'e \<Rightarrow> 'e storage \<Rightarrow> error + 'e storage" where
  "submitEncryptedTransaction now trader counterparty security amount timestamp s =
     (if unat (transactionCount s) + 1 < 2 ^ 256 then
        (let newId = transactionCount s + 1 in
         Inr (s\<lparr>transactionCount := newId,
                encryptedTransactions := (encryptedTransactions s)(newId :=
                  \<lparr>tx_id = newId, encryptedTraderId = trader,
                   encryptedCounterparty = counterparty, encryptedSecurity = security,
                   encryptedAmount = amount, encryptedTimestamp = timestamp,
                   submissionTime = now\<rparr>),
                events := events s @ [TransactionSubmitted newId now]\<rparr>))
      else Inl Panic_0x11)"

subsection \<open>The adjacency matrix\<close>

text \<open>
  The loop of \<open>initializeAdjacencyMatrix\<close>:
  \<open>for (uint i = 0; i < size * size; i++) encryptedAdjacencyMatrix[i] = FHE.asEuint32(0)\<close>,
  with \<open>n\<close> the value of \<open>size * size\<close>.
\<close>

function init_loop :: "('e, 'b, 'y) env \<Rightarrow> nat \<Rightarrow> nat \<Rightarrow> 'e list \<Rightarrow> error + 'e list" where
  "init_loop env i n m =
     (if i < n then
        (case array_set m i (fhe_asEuint32 env 0) of
           Inl e \<Rightarrow> Inl e
         | Inr m' \<Rightarrow> init_loop env (i + 1) n m')
      else Inr m)"
  by pat_completeness auto
termination
  by (relation "measure (\<lambda>(env, i, n, m). n - i)") auto

declare init_loop.simps [simp del]

text \<open>
  \<open>size * size\<close> is checked (\<open>Panic(0x11)\<close>), then \<open>new euint32[](size * size)\<close> checks
  the length against \<open>0xffffffffffffffff\<close> (\<open>Panic(0x41)\<close>) and yields zero cells, which
  the loop then overwrites.
\<close>

definition initializeAdjacencyMatrix ::
  "('e, 'b, 'y) env \<Rightarrow> uint256 \<Rightarrow> 'e storage \<Rightarrow> error + 'e storage" where
  "initializeAdjacencyMatrix env size' s =
     (if unat size' * unat size' < 2 ^ 256 then
        (if 2 ^ 64 - 1 < unat size' * unat size' then Inl Panic_0x41
         else
           (case init_loop env 0 (unat size' * unat size')
                   (replicate (unat size' * unat size') (e_zero env)) of
              Inl e \<Rightarrow> Inl e
            | Inr m \<Rightarrow> Inr (s\<lparr>matrixSize := size', encryptedAdjacencyMatrix := m\<rparr>)))
      else Inl Panic_0x11)"

text \<open>The index \<open>i * matrixSize + j\<close>, with both operations checked.\<close>

definition cell_index :: "uint256 \<Rightarrow> uint256 \<Rightarrow> uint256 \<Rightarrow> error + nat" where
  "cell_index i n j =
     (if unat i * unat n < 2 ^ 256 \<and> unat i * unat n + unat j < 2 ^ 256
      then Inr (unat i * unat n + unat j) else Inl Panic_0x11)"

definition addEncryptedEdge ::
  "uint256 \<Rightarrow> uint256 \<Rightarrow> 'e \<Rightarrow> 'e storage \<Rightarrow> error + 'e storage" where
  "addEncryptedEdge from to weight s =
     (if from < matrixSize s \<and> to < matrixSize s then
        (case cell_index from (matrixSize s) to of
           Inl e \<Rightarrow> Inl e
         | Inr k \<Rightarrow>
             (case array_set (encryptedAdjacencyMatrix s) k weight of
                Inl e \<Rightarrow> Inl e
              | Inr m \<Rightarrow> Inr (s\<lparr>encryptedAdjacencyMatrix := m\<rparr>)))
      else Inl InvalidIndex)"

definition getAdjacencyElement :: "uint256 \<Rightarrow> uint256 \<Rightarrow> 'e storage \<Rightarrow> error + 'e" where
  "getAdjacencyElement i j s =
     (if i < matrixSize s \<and> j < matrixSize s then
        (case cell_index i (matrixSize s) j of
           Inl e \<Rightarrow> Inl e
         | Inr k \<Rightarrow> array_get (encryptedAdjacencyMatrix s) k)
      else Inl InvalidIndex)"

subsection \<open>startRingDetection and storeAnalysisResults\<close>

text \<open>\<open>now\<close> is \<open>block.timestamp\<close>; the function only emits an event.\<close>

definition startRingDetection :: "uint256 \<Rightarrow> 'e storage \<Rightarrow> error + 'e storage" where
  "startRingDetection now s = Inr (s\<lparr>events := events s @ [AnalysisStarted now]\<rparr>)"

definition storeAnalysisResults ::
  "uint256 \<Rightarrow> 'e list \<Rightarrow> 'e \<Rightarrow> 'e storage \<Rightarrow> error + 'e storage" where
  "storeAnalysisResults analysisId encryptedRing encryptedRiskScore' s =
     Inr (s\<lparr>analysisResults := (analysisResults s)(analysisId :=
               \<lparr>encryptedRingMembers = encryptedRing,
                encryptedRiskScore = encryptedRiskScore',
                isComplete = True\<rparr>),
            decryptedResults := (decryptedResults s)(analysisId :=
               \<lparr>ringMembers = [], riskScore = 0, isRevealed = False\<rparr>),
            events := events s @ [AnalysisCompleted analysisId]\<rparr>)"

subsection \<open>requestResultDecryption\<close>

text \<open>
  The loop \<open>for (uint i = 0; i < result.encryptedRingMembers.length; i++)
  ciphertexts[i] = FHE.toBytes32(result.encryptedRingMembers[i])\<close>.
\<close>

function ciphertexts_loop ::
  "('e, 'b, 'y) env \<Rightarrow> nat \<Rightarrow> 'e list \<Rightarrow> bytes32 list \<Rightarrow> error + bytes32 list" where
  "ciphertexts_loop env i members ciphertexts =
     (if i < length members then
        (case array_get members i of
           Inl e \<Rightarrow> Inl e
         | Inr x \<Rightarrow>
             (case array_set ciphertexts i (fhe_toBytes32 env x) of
                Inl e \<Rightarrow> Inl e
              | Inr ciphertexts' \<Rightarrow> ciphertexts_loop env (i + 1) members ciphertexts'))
      else Inr ciphertexts)"
  by pat_completeness auto
termination
  by (relation "measure (\<lambda>(env, i, members, ciphertexts). length members - i)") auto

declare ciphertexts_loop.simps [simp del]

text \<open>
  The batch handed to \<open>FHE.requestDecryption\<close>: \<open>totalElements\<close> zero words, filled by the
  loop, then the risk score at position \<open>encryptedRingMembers.length\<close>.
\<close>

definition build_ciphertexts ::
  "('e, 'b, 'y) env \<Rightarrow> 'e AnalysisResult \<Rightarrow> error + bytes32 list" where
  "build_ciphertexts env r =
     (if length (encryptedRingMembers r) + 1 < 2 ^ 256 then
        (let totalElements = length (encryptedRingMembers r) + 1 in
         case ciphertexts_loop env 0 (encryptedRingMembers r) (replicate totalElements 0) of
           Inl e \<Rightarrow> Inl e
         | Inr ciphertexts \<Rightarrow>
             array_set ciphertexts (length (encryptedRingMembers r))
               (fhe_toBytes32 env (encryptedRiskScore r)))
      else Inl Panic_0x11)"

text \<open>
  \<open>FHE.requestDecryption\<close> hands the batch to the decryption oracle and returns the oracle's
  token. The oracle is outside the contract: the token it returns is the argument \<open>reqId\<close>,
  and the batch it receives is returned with the new storage. The callback selector is a
  constant and is left out.
\<close>

definition requestResultDecryption ::
  "('e, 'b, 'y) env \<Rightarrow> uint256 \<Rightarrow> uint256 \<Rightarrow> 'e storage \<Rightarrow> error + (bytes32 list \<times> 'e storage)" where
  "requestResultDecryption env reqId analysisId s =
     (if \<not> isComplete (analysisResults s analysisId) then Inl AnalysisNotComplete
      else if isRevealed (decryptedResults s analysisId) then Inl AlreadyRevealed
      else
        (case build_ciphertexts env (analysisResults s analysisId) of
           Inl e \<Rightarrow> Inl e
         | Inr ciphertexts \<Rightarrow>
             Inr (ciphertexts,
                  s\<lparr>requestToAnalysisId := (requestToAnalysisId s)(reqId := analysisId)\<rparr>)))"

subsection \<open>decryptAnalysisResult\<close>

text \<open>
  The loop \<open>for (uint i = 0; i < results.length - 1; i++) members[i] = results[i]\<close>; it is
  entered only when \<open>results.length - 1\<close> has not underflowed.
\<close>

function members_loop :: "nat \<Rightarrow> uint32 list \<Rightarrow> uint32 list \<Rightarrow> error + uint32 list" where
  "members_loop i results members =
     (if i < length results - 1 then
        (case array_get results i of
           Inl e \<Rightarrow> Inl e
         | Inr x \<Rightarrow>
             (case array_set members i x of
                Inl e \<Rightarrow> Inl e
              | Inr members' \<Rightarrow> members_loop (i + 1) results members'))
      else Inr members)"
  by pat_completeness auto
termination
  by (relation "measure (\<lambda>(i, results, members). length results - 1 - i)") auto

declare members_loop.simps [simp del]

definition decryptAnalysisResult ::
  "('e, 'b, 'y) env \<Rightarrow> uint256 \<Rightarrow> 'y \<Rightarrow> 'y \<Rightarrow> 'e storage \<Rightarrow> error + 'e storage" where
  "decryptAnalysisResult env requestId cleartexts proof s =
     (let analysisId = requestToAnalysisId s requestId in
      if \<not> analysisId \<noteq> 0 then Inl InvalidRequest
      else if isRevealed (decryptedResults s analysisId) then Inl AlreadyRevealed
      else if \<not> fhe_checkSignatures env requestId cleartexts proof then Inl SignaturesRevert
      else
        (case abi_decode env cleartexts of
           None \<Rightarrow> Inl DecodeRevert
         | Some results \<Rightarrow>
             if length results < 1 then Inl Panic_0x11
             else
               (case members_loop 0 results (replicate (length results - 1) 0) of
                  Inl e \<Rightarrow> Inl e
                | Inr members \<Rightarrow>
                    (case array_get results (length results - 1) of
                       Inl e \<Rightarrow> Inl e
                     | Inr score \<Rightarrow>
                         Inr (s\<lparr>decryptedResults := (decryptedResults s)(analysisId :=
                                  (decryptedResults s analysisId)
                                    \<lparr>ringMembers := members, riskScore := score,
                                     isRevealed := True\<rparr>),
                                events := events s @ [ResultRevealed analysisId]\<rparr>)))))"

subsection \<open>The view functions\<close>

definition getEncryptedAnalysisResult :: "uint256 \<Rightarrow> 'e storage \<Rightarrow> error + ('e list \<times> 'e)" where
  "getEncryptedAnalysisResult analysisId s =
     (let r = analysisResults s analysisId in
      if isComplete r then Inr (encryptedRingMembers r, encryptedRiskScore r)
      else Inl AnalysisNotComplete)"

definition getDecryptedAnalysisResult ::
  "uint256 \<Rightarrow> 'e storage \<Rightarrow> error + (uint32 list \<times> uint32 \<times> bool)" where
  "getDecryptedAnalysisResult analysisId s =
     (let r = decryptedResults s analysisId in Inr (ringMembers r, riskScore r, isRevealed r))"

subsection \<open>encryptedBFS\<close>

text \<open>
  The local variables of \<open>encryptedBFS\<close>. \<open>rounds\<close> is not in the source: it counts the
  completed rounds of the traversal loop.
\<close>

record 'e bfs =
  visited :: "'e list"
  queue :: "'e list"
  result :: "'e list"
  current :: 'e
  index :: 'e
  rounds :: nat

text \<open>The first loop: it sets cell \<open>i\<close> of the three arrays to \<open>FHE.asEuint32(0)\<close>.\<close>

function bfs_init_loop ::
  "('e, 'b, 'y) env \<Rightarrow> nat \<Rightarrow> nat \<Rightarrow> 'e list \<times> 'e list \<times> 'e list
     \<Rightarrow> error + ('e list \<times> 'e list \<times> 'e list)" where
  "bfs_init_loop env i n (v, q, r) =
     (if i < n then
        (case array_set v i (fhe_asEuint32 env 0) of
           Inl e \<Rightarrow> Inl e
         | Inr v' \<Rightarrow>
             (case array_set q i (fhe_asEuint32 env 0) of
                Inl e \<Rightarrow> Inl e
              | Inr q' \<Rightarrow>
                  (case array_set r i (fhe_asEuint32 env 0) of
                     Inl e \<Rightarrow> Inl e
                   | Inr r' \<Rightarrow> bfs_init_loop env (i + 1) n (v', q', r'))))
      else Inr (v, q, r))"
  by pat_completeness auto
termination
  by (relation "measure (\<lambda>(env, i, n, a). n - i)") auto

declare bfs_init_loop.simps [simp del]

text \<open>
  One round of the traversal loop (the body, lines 221 to 230 of the source). The arrays
  are indexed by \<open>FHE.decrypt(current)\<close> and \<open>FHE.decrypt(index)\<close>; every read and write of a
  memory array is bounds-checked.
\<close>

definition bfs_round :: "('e, 'b, 'y) env \<Rightarrow> 'e bfs \<Rightarrow> error + 'e bfs" where
  "bfs_round env st =
     (case array_get (visited st) (unat (fhe_decrypt env (current st))) of
        Inl e \<Rightarrow> Inl e
      | Inr v \<Rightarrow>
          (let isVisited = fhe_ne env v (fhe_asEuint32 env 1);
               shouldVisit = fhe_and env isVisited
                               (fhe_gt env (current st) (fhe_asEuint32 env 0))
           in
           case array_get (visited st) (unat (fhe_decrypt env (current st))) of
             Inl e \<Rightarrow> Inl e
           | Inr v1 \<Rightarrow>
               (case array_set (visited st) (unat (fhe_decrypt env (current st)))
                       (fhe_select env shouldVisit (fhe_asEuint32 env 1) v1) of
                  Inl e \<Rightarrow> Inl e
                | Inr visited' \<Rightarrow>
                    (case array_get (result st) (unat (fhe_decrypt env (index st))) of
                       Inl e \<Rightarrow> Inl e
                     | Inr r1 \<Rightarrow>
                         (case array_set (result st) (unat (fhe_decrypt env (index st)))
                                 (fhe_select env shouldVisit (current st) r1) of
                            Inl e \<Rightarrow> Inl e
                          | Inr result' \<Rightarrow>
                              Inr (st\<lparr>visited := visited', result := result',
                                      index := fhe_add env (index st) (fhe_asEuint32 env 1),
                                      current := fhe_add env (current st) (fhe_asEuint32 env 1),
                                      rounds := rounds st + 1\<rparr>))))))"

text \<open>The traversal loop \<open>for (uint i = 0; i < matrixSize; i++)\<close>.\<close>

function bfs_loop :: "('e, 'b, 'y) env \<Rightarrow> nat \<Rightarrow> nat \<Rightarrow> 'e bfs \<Rightarrow> error + 'e bfs" where
  "bfs_loop env i n st =
     (if i < n then
        (case bfs_round env st of
           Inl e \<Rightarrow> Inl e
         | Inr st' \<Rightarrow> bfs_loop env (i + 1) n st')
      else Inr st)"
  by pat_completeness auto
termination
  by (relation "measure (\<lambda>(env, i, n, st). n - i)") auto

declare bfs_loop.simps [simp del]

text \<open>
  The traversal up to the \<open>return\<close>: the locals after the last round, or the revert.
\<close>

definition bfs_run :: "('e, 'b, 'y) env \<Rightarrow> 'e \<Rightarrow> 'e storage \<Rightarrow> error + 'e bfs" where
  "bfs_run env startNode s =
     (if \<not> matrixSize s > 0 then Inl MatrixNotInitialized
      else
        (let n = unat (matrixSize s) in
         case bfs_init_loop env 0 n
                (replicate n (e_zero env), replicate n (e_zero env), replicate n (e_zero env)) of
           Inl e \<Rightarrow> Inl e
         | Inr (v, q, r) \<Rightarrow>
             bfs_loop env 0 n
               \<lparr>visited = v, queue = q, result = r, current = startNode,
                index = fhe_asEuint32 env 0, rounds = 0\<rparr>))"

definition encryptedBFS :: "('e, 'b, 'y) env \<Rightarrow> 'e \<Rightarrow> 'e storage \<Rightarrow> error + 'e list" where
  "encryptedBFS env startNode s =
     (case bfs_run env startNode s of Inl e \<Rightarrow> Inl e | Inr st \<Rightarrow> Inr (result st))"

subsection \<open>Sequences of transactions\<close>

text \<open>
  A transaction calls one of the state-changing public functions. \<open>Submit\<close> and
  \<open>StartRingDetection\<close> carry the block's timestamp, \<open>RequestResultDecryption\<close> the token
  the oracle returns.
\<close>

datatype ('e, 'y) call =
    SubmitEncryptedTransaction uint256 'e 'e 'e 'e 'e
  | InitializeAdjacencyMatrix uint256
  | AddEncryptedEdge uint256 uint256 'e
  | StartRingDetection uint256
  | StoreAnalysisResults uint256 "'e list" 'e
  | RequestResultDecryption uint256 uint256
  | DecryptAnalysisResult uint256 'y 'y

fun exec :: "('e, 'b, 'y) env \<Rightarrow> ('e, 'y) call \<Rightarrow> 'e storage \<Rightarrow> error + 'e storage" where
  "exec env (SubmitEncryptedTransaction now a b c d e) s =
     submitEncryptedTransaction now a b c d e s"
| "exec env (InitializeAdjacencyMatrix n) s = initializeAdjacencyMatrix env n s"
| "exec env (AddEncryptedEdge i j w) s = addEncryptedEdge i j w s"
| "exec env (StartRingDetection now) s = startRingDetection now s"
| "exec env (StoreAnalysisResults a ring score) s = storeAnalysisResults a ring score s"
| "exec env (RequestResultDecryption reqId a) s =
     (case requestResultDecryption env reqId a s of
        Inl e \<Rightarrow> Inl e
      | Inr (ciphertexts, s') \<Rightarrow> Inr s')"
| "exec env (DecryptAnalysisResult reqId cleartexts proof) s =
     decryptAnalysisResult env reqId cleartexts proof s"

text \<open>A transaction that reverts leaves the storage as it was.\<close>

definition step :: "('e, 'b, 'y) env \<Rightarrow> ('e, 'y) call \<Rightarrow> 'e storage \<Rightarrow> 'e storage" where
  "step env c s = (case exec env c s of Inl e \<Rightarrow> s | Inr s' \<Rightarrow> s')"

fun run :: "('e, 'b, 'y) env \<Rightarrow> ('e, 'y) call list \<Rightarrow> 'e storage \<Rightarrow> 'e storage" where
  "run env [] s = s"
| "run env (c # cs) s = run env cs (step env c s)"

subsection \<open>A transparent instance of the library\<close>

text \<open>
  Modelled from the spec: the FHE library is not in the repository. The specification
  (section 6) gives its contract: \<open>encrypt\<close>, \<open>add\<close>, the comparisons \<open>gt\<close> and \<open>ne\<close>
  producing an encrypted boolean, and \<open>select\<close>, all total and free of side effects. This
  instance computes them in the clear: a ciphertext is its plaintext, so \<open>FHE.decrypt\<close> is
  the identity and \<open>FHE.add\<close> is addition on \<open>uint32\<close>. The callback's \<open>bytes\<close> are the decoded
  list itself, and a proof is accepted when it repeats the cleartexts. It is used to
  evaluate the contract on concrete inputs.
\<close>

definition plain :: "(uint32, bool, uint32 list) env" where
  "plain =
     \<lparr>e_zero = 0,
      fhe_asEuint32 = (\<lambda>x. x),
      fhe_toBytes32 = (\<lambda>x. ucast x),
      fhe_ne = (\<lambda>a b. a \<noteq> b),
      fhe_gt = (\<lambda>a b. a > b),
      fhe_and = (\<lambda>a b. a \<and> b),
      fhe_select = (\<lambda>c a b. if c then a else b),
      fhe_add = (\<lambda>a b. a + b),
      fhe_decrypt = (\<lambda>x. x),
      fhe_checkSignatures = (\<lambda>requestId cleartexts proof. proof = cleartexts),
      abi_decode = (\<lambda>cleartexts. Some cleartexts)\<rparr>"

subsection \<open>Predicates used in the statements\<close>

text \<open>
  The adjacency matrix holds \<open>matrixSize * matrixSize\<close> cells, and that product fits in a
  \<open>uint256\<close>.
\<close>

definition matrix_inv :: "'e storage \<Rightarrow> bool" where
  "matrix_inv s \<longleftrightarrow>
     length (encryptedAdjacencyMatrix s) = unat (matrixSize s) * unat (matrixSize s) \<and>
     unat (matrixSize s) * unat (matrixSize s) < 2 ^ 256"

text \<open>\<open>is_store a c\<close>: the call \<open>c\<close> is \<open>storeAnalysisResults\<close> for the analysis id \<open>a\<close>.\<close>

fun is_store :: "uint256 \<Rightarrow> ('e, 'y) call \<Rightarrow> bool" where
  "is_store a (StoreAnalysisResults a' ring score) = (a' = a)"
| "is_store a c = False"

text \<open>
  \<open>rebinds t c\<close>: the call \<open>c\<close> is a \<open>requestResultDecryption\<close> to which the oracle returns
  the token \<open>t\<close>.
\<close>

fun rebinds :: "uint256 \<Rightarrow> ('e, 'y) call \<Rightarrow> bool" where
  "rebinds t (RequestResultDecryption reqId a) = (reqId = t)"
| "rebinds t c = False"

section \<open>The loops\<close>

lemma init_loop_inv:
  "n \<le> length m \<Longrightarrow>
   \<exists>m'. init_loop env i n m = Inr m' \<and> length m' = length m \<and>
     (\<forall>k < length m. m' ! k = (if i \<le> k \<and> k < n then fhe_asEuint32 env 0 else m ! k))"
proof (induction env i n m rule: init_loop.induct)
  case (1 env i n m)
  show ?case
  proof (cases "i < n")
    case True
    let ?m1 = "m[i := fhe_asEuint32 env 0]"
    have w: "array_set m i (fhe_asEuint32 env 0) = Inr ?m1"
      using True 1(2) by (simp add: array_set_def)
    have "n \<le> length ?m1" using 1(2) by simp
    from 1(1) [OF True w this] obtain m' where
      m': "init_loop env (i + 1) n ?m1 = Inr m'" "length m' = length ?m1"
          "\<forall>k < length ?m1. m' ! k =
             (if i + 1 \<le> k \<and> k < n then fhe_asEuint32 env 0 else ?m1 ! k)"
      by blast
    have "init_loop env i n m = Inr m'"
      using True w m'(1) by (subst init_loop.simps) simp
    moreover have "length m' = length m" using m'(2) by simp
    moreover have "\<forall>k < length m. m' ! k =
        (if i \<le> k \<and> k < n then fhe_asEuint32 env 0 else m ! k)"
      using m'(3) True by (auto simp: nth_list_update)
    ultimately show ?thesis by blast
  next
    case False
    then show ?thesis by (subst init_loop.simps) auto
  qed
qed

lemma ciphertexts_loop_inv:
  "length members \<le> length cts \<Longrightarrow>
   \<exists>cts'. ciphertexts_loop env i members cts = Inr cts' \<and> length cts' = length cts \<and>
     (\<forall>k < length cts. cts' ! k =
        (if i \<le> k \<and> k < length members then fhe_toBytes32 env (members ! k) else cts ! k))"
proof (induction env i members cts rule: ciphertexts_loop.induct)
  case (1 env i members cts)
  show ?case
  proof (cases "i < length members")
    case True
    let ?c1 = "cts[i := fhe_toBytes32 env (members ! i)]"
    have r: "array_get members i = Inr (members ! i)"
      using True by (simp add: array_get_def)
    have w: "array_set cts i (fhe_toBytes32 env (members ! i)) = Inr ?c1"
      using True 1(2) by (simp add: array_set_def)
    have "length members \<le> length ?c1" using 1(2) by simp
    from 1(1) [OF True r w this] obtain cts' where
      c: "ciphertexts_loop env (i + 1) members ?c1 = Inr cts'" "length cts' = length ?c1"
         "\<forall>k < length ?c1. cts' ! k =
            (if i + 1 \<le> k \<and> k < length members then fhe_toBytes32 env (members ! k)
             else ?c1 ! k)"
      by blast
    have "ciphertexts_loop env i members cts = Inr cts'"
      using True r w c(1) by (subst ciphertexts_loop.simps) simp
    moreover have "length cts' = length cts" using c(2) by simp
    moreover have "\<forall>k < length cts. cts' ! k =
        (if i \<le> k \<and> k < length members then fhe_toBytes32 env (members ! k) else cts ! k)"
    proof (intro allI impI)
      fix k assume k: "k < length cts"
      show "cts' ! k =
        (if i \<le> k \<and> k < length members then fhe_toBytes32 env (members ! k) else cts ! k)"
      proof (cases "k = i")
        case True
        with c(3) k \<open>i < length members\<close> show ?thesis by simp
      next
        case False
        with c(3) k show ?thesis by (auto simp: nth_list_update)
      qed
    qed
    ultimately show ?thesis by blast
  next
    case False
    then show ?thesis by (subst ciphertexts_loop.simps) auto
  qed
qed

lemma members_loop_inv:
  "length results - 1 \<le> length members \<Longrightarrow>
   \<exists>members'. members_loop i results members = Inr members' \<and>
     length members' = length members \<and>
     (\<forall>k < length members. members' ! k =
        (if i \<le> k \<and> k < length results - 1 then results ! k else members ! k))"
proof (induction i results members rule: members_loop.induct)
  case (1 i results members)
  show ?case
  proof (cases "i < length results - 1")
    case True
    let ?m1 = "members[i := results ! i]"
    have r: "array_get results i = Inr (results ! i)"
      using True by (simp add: array_get_def)
    have w: "array_set members i (results ! i) = Inr ?m1"
      using True 1(2) by (simp add: array_set_def)
    have "length results - 1 \<le> length ?m1" using 1(2) by simp
    from 1(1) [OF True r w this] obtain members' where
      c: "members_loop (i + 1) results ?m1 = Inr members'" "length members' = length ?m1"
         "\<forall>k < length ?m1. members' ! k =
            (if i + 1 \<le> k \<and> k < length results - 1 then results ! k else ?m1 ! k)"
      by blast
    have "members_loop i results members = Inr members'"
      using True r w c(1) by (subst members_loop.simps) simp
    moreover have "length members' = length members" using c(2) by simp
    moreover have "\<forall>k < length members. members' ! k =
        (if i \<le> k \<and> k < length results - 1 then results ! k else members ! k)"
    proof (intro allI impI)
      fix k assume k: "k < length members"
      show "members' ! k =
        (if i \<le> k \<and> k < length results - 1 then results ! k else members ! k)"
      proof (cases "k = i")
        case True
        with c(3) k \<open>i < length results - 1\<close> show ?thesis by simp
      next
        case False
        with c(3) k show ?thesis by (auto simp: nth_list_update)
      qed
    qed
    ultimately show ?thesis by blast
  next
    case False
    then show ?thesis by (subst members_loop.simps) auto
  qed
qed

lemma bfs_init_loop_inv:
  "n \<le> length v \<Longrightarrow> n \<le> length q \<Longrightarrow> n \<le> length r \<Longrightarrow>
   \<exists>v' q' r'. bfs_init_loop env i n (v, q, r) = Inr (v', q', r') \<and>
     length v' = length v \<and> length q' = length q \<and> length r' = length r \<and>
     (\<forall>k < length v. v' ! k = (if i \<le> k \<and> k < n then fhe_asEuint32 env 0 else v ! k)) \<and>
     (\<forall>k < length q. q' ! k = (if i \<le> k \<and> k < n then fhe_asEuint32 env 0 else q ! k)) \<and>
     (\<forall>k < length r. r' ! k = (if i \<le> k \<and> k < n then fhe_asEuint32 env 0 else r ! k))"
proof (induction env i n "(v, q, r)" arbitrary: v q r rule: bfs_init_loop.induct)
  case (1 env i n v q r)
  show ?case
  proof (cases "i < n")
    case True
    let ?z = "fhe_asEuint32 env 0"
    have wv: "array_set v i ?z = Inr (v[i := ?z])"
      and wq: "array_set q i ?z = Inr (q[i := ?z])"
      and wr: "array_set r i ?z = Inr (r[i := ?z])"
      using True 1(2,3,4) by (simp_all add: array_set_def)
    have len: "n \<le> length (v[i := ?z])" "n \<le> length (q[i := ?z])" "n \<le> length (r[i := ?z])"
      using 1(2,3,4) by simp_all
    from 1(1) [OF True wv wq wr len] obtain v' q' r' where
      c: "bfs_init_loop env (i + 1) n (v[i := ?z], q[i := ?z], r[i := ?z]) = Inr (v', q', r')"
         "length v' = length v" "length q' = length q" "length r' = length r"
         "\<forall>k < length v. v' ! k = (if i + 1 \<le> k \<and> k < n then ?z else v[i := ?z] ! k)"
         "\<forall>k < length q. q' ! k = (if i + 1 \<le> k \<and> k < n then ?z else q[i := ?z] ! k)"
         "\<forall>k < length r. r' ! k = (if i + 1 \<le> k \<and> k < n then ?z else r[i := ?z] ! k)"
      by auto
    have "bfs_init_loop env i n (v, q, r) = Inr (v', q', r')"
      using True wv wq wr c(1) by (subst bfs_init_loop.simps) simp
    moreover have "\<forall>k < length v. v' ! k = (if i \<le> k \<and> k < n then ?z else v ! k)"
      using c(5) True by (auto simp: nth_list_update)
    moreover have "\<forall>k < length q. q' ! k = (if i \<le> k \<and> k < n then ?z else q ! k)"
      using c(6) True by (auto simp: nth_list_update)
    moreover have "\<forall>k < length r. r' ! k = (if i \<le> k \<and> k < n then ?z else r ! k)"
      using c(7) True by (auto simp: nth_list_update)
    ultimately show ?thesis using c(2,3,4) by blast
  next
    case False
    then show ?thesis by (subst bfs_init_loop.simps) auto
  qed
qed

lemma bfs_round_rounds:
  "bfs_round env st = Inr st' \<Longrightarrow> rounds st' = rounds st + 1"
  by (auto simp: bfs_round_def Let_def split: sum.splits)

lemma bfs_loop_rounds:
  "bfs_loop env i n st = Inr st' \<Longrightarrow> rounds st' = rounds st + (n - i)"
proof (induction env i n st rule: bfs_loop.induct)
  case (1 env i n st)
  show ?case
  proof (cases "i < n")
    case True
    from 1(2) True obtain st1 where
      r: "bfs_round env st = Inr st1" and l: "bfs_loop env (i + 1) n st1 = Inr st'"
      by (subst (asm) bfs_loop.simps) (auto split: sum.splits)
    from 1(1) [OF True r l] bfs_round_rounds [OF r] True show ?thesis by simp
  next
    case False
    with 1(2) show ?thesis by (subst (asm) bfs_loop.simps) simp
  qed
qed

section \<open>The adjacency matrix\<close>

lemma init_loop_replicate:
  "init_loop env 0 n (replicate n z) = Inr (replicate n (fhe_asEuint32 env 0))"
proof -
  obtain m' where m': "init_loop env 0 n (replicate n z) = Inr m'" "length m' = n"
    "\<forall>k < n. m' ! k = fhe_asEuint32 env 0"
    using init_loop_inv [of n "replicate n z" env 0] by auto
  have "m' = replicate n (fhe_asEuint32 env 0)"
    using m'(2,3) by (intro nth_equalityI) simp_all
  with m'(1) show ?thesis by simp
qed

lemma initializeAdjacencyMatrix_fits:
  "unat sz * unat sz \<le> 2 ^ 64 - 1 \<Longrightarrow>
   initializeAdjacencyMatrix env sz s =
     Inr (s\<lparr>matrixSize := sz,
            encryptedAdjacencyMatrix := replicate (unat sz * unat sz) (fhe_asEuint32 env 0)\<rparr>)"
  by (simp add: initializeAdjacencyMatrix_def init_loop_replicate)

lemma initializeAdjacencyMatrix_too_large:
  "2 ^ 64 - 1 < unat sz * unat sz \<Longrightarrow> unat sz * unat sz < 2 ^ 256 \<Longrightarrow>
   initializeAdjacencyMatrix env sz s = Inl Panic_0x41"
  by (simp add: initializeAdjacencyMatrix_def)

lemma initializeAdjacencyMatrix_overflow:
  "\<not> unat sz * unat sz < 2 ^ 256 \<Longrightarrow> initializeAdjacencyMatrix env sz s = Inl Panic_0x11"
  by (simp add: initializeAdjacencyMatrix_def)

lemma initializeAdjacencyMatrix_Inr:
  assumes "initializeAdjacencyMatrix env sz s = Inr s'"
  shows "unat sz * unat sz \<le> 2 ^ 64 - 1"
    and "s' = s\<lparr>matrixSize := sz,
            encryptedAdjacencyMatrix := replicate (unat sz * unat sz) (fhe_asEuint32 env 0)\<rparr>"
proof -
  show le: "unat sz * unat sz \<le> 2 ^ 64 - 1"
    using assms by (simp add: initializeAdjacencyMatrix_def split: if_splits)
  from initializeAdjacencyMatrix_fits [OF le, of env s] assms
  show "s' = s\<lparr>matrixSize := sz,
            encryptedAdjacencyMatrix := replicate (unat sz * unat sz) (fhe_asEuint32 env 0)\<rparr>"
    by simp
qed

lemma cell_bound:
  fixes f t n :: nat
  assumes "f < n" "t < n"
  shows "f * n + t < n * n"
proof -
  have "f * n + t < f * n + n" using assms(2) by simp
  also have "\<dots> = Suc f * n" by simp
  also have "\<dots> \<le> n * n" using assms(1) by (intro mult_le_mono1) simp
  finally show ?thesis .
qed

lemma cell_index_ok:
  assumes "matrix_inv s" "i < matrixSize s" "j < matrixSize s"
  shows "cell_index i (matrixSize s) j = Inr (unat i * unat (matrixSize s) + unat j)"
    and "unat i * unat (matrixSize s) + unat j < length (encryptedAdjacencyMatrix s)"
proof -
  let ?n = "unat (matrixSize s)"
  have lt: "unat i < ?n" "unat j < ?n"
    using assms(2,3) by (simp_all add: word_less_nat_alt)
  have b: "unat i * ?n + unat j < ?n * ?n" by (rule cell_bound [OF lt])
  have n2: "?n * ?n < 2 ^ 256" using assms(1) by (simp add: matrix_inv_def)
  have "unat i * ?n \<le> unat i * ?n + unat j" by simp
  with b n2 have "unat i * ?n < 2 ^ 256" "unat i * ?n + unat j < 2 ^ 256" by linarith+
  then show "cell_index i (matrixSize s) j = Inr (unat i * ?n + unat j)"
    by (simp add: cell_index_def)
  show "unat i * ?n + unat j < length (encryptedAdjacencyMatrix s)"
    using b assms(1) by (simp add: matrix_inv_def)
qed

lemma addEncryptedEdge_ok:
  assumes "matrix_inv s" "i < matrixSize s" "j < matrixSize s"
  shows "addEncryptedEdge i j w s =
     Inr (s\<lparr>encryptedAdjacencyMatrix :=
            (encryptedAdjacencyMatrix s)[unat i * unat (matrixSize s) + unat j := w]\<rparr>)"
  using assms cell_index_ok [OF assms]
  by (simp add: addEncryptedEdge_def array_set_def)

lemma getAdjacencyElement_ok:
  assumes "matrix_inv s" "i < matrixSize s" "j < matrixSize s"
  shows "getAdjacencyElement i j s =
     Inr (encryptedAdjacencyMatrix s ! (unat i * unat (matrixSize s) + unat j))"
  using assms cell_index_ok [OF assms]
  by (simp add: getAdjacencyElement_def array_get_def)

lemma matrix_inv_deployed: "matrix_inv (deployed env)"
  by (simp add: matrix_inv_def deployed_def)

lemma matrix_inv_step: "matrix_inv s \<Longrightarrow> matrix_inv (step env c s)"
proof (cases c)
  case (InitializeAdjacencyMatrix sz)
  assume inv: "matrix_inv s"
  show ?thesis
  proof (cases "initializeAdjacencyMatrix env sz s")
    case (Inl e)
    with inv InitializeAdjacencyMatrix show ?thesis by (simp add: step_def)
  next
    case (Inr s')
    have "unat sz * unat sz < 2 ^ 256"
      using initializeAdjacencyMatrix_Inr(1) [OF Inr] by simp
    with initializeAdjacencyMatrix_Inr(2) [OF Inr] InitializeAdjacencyMatrix Inr
    show ?thesis by (simp add: step_def matrix_inv_def)
  qed
next
  case (AddEncryptedEdge i j w)
  assume "matrix_inv s"
  then show ?thesis
    using AddEncryptedEdge
    by (auto simp: step_def addEncryptedEdge_def array_set_def matrix_inv_def
          split: sum.splits if_splits)
qed (auto simp: step_def matrix_inv_def submitEncryptedTransaction_def Let_def
       startRingDetection_def storeAnalysisResults_def requestResultDecryption_def
       decryptAnalysisResult_def split: sum.splits if_splits option.splits)

lemma matrix_inv_run: "matrix_inv s \<Longrightarrow> matrix_inv (run env cs s)"
  by (induction cs arbitrary: s) (simp_all add: matrix_inv_step)

section \<open>Claims about the adjacency matrix\<close>

text \<open>
  C7 (amended). \<open>initializeAdjacencyMatrix(0)\<close> does not fail: it succeeds and leaves
  \<open>matrixSize = 0\<close> and an empty matrix. For every \<open>size\<close> with
  \<open>size * size <= 0xffffffffffffffff\<close> the call succeeds, sets \<open>matrixSize\<close> to \<open>size\<close> and
  allocates exactly \<open>size * size\<close> cells, every one equal to \<open>FHE.asEuint32(0)\<close>. For
  every larger \<open>size\<close> the call reverts: with \<open>Panic(0x41)\<close> from the allocation when
  \<open>size * size\<close> fits in a \<open>uint256\<close>, with \<open>Panic(0x11)\<close> when it overflows. (Gas is
  outside the model.)
\<close>

theorem initialize_allocates:
  "initializeAdjacencyMatrix env 0 s =
     Inr (s\<lparr>matrixSize := 0, encryptedAdjacencyMatrix := []\<rparr>) \<and>
   (unat sz * unat sz \<le> 2 ^ 64 - 1 \<longrightarrow>
      initializeAdjacencyMatrix env sz s =
        Inr (s\<lparr>matrixSize := sz,
               encryptedAdjacencyMatrix :=
                 replicate (unat sz * unat sz) (fhe_asEuint32 env 0)\<rparr>)) \<and>
   (2 ^ 64 - 1 < unat sz * unat sz \<and> unat sz * unat sz < 2 ^ 256 \<longrightarrow>
      initializeAdjacencyMatrix env sz s = Inl Panic_0x41) \<and>
   (\<not> unat sz * unat sz < 2 ^ 256 \<longrightarrow> initializeAdjacencyMatrix env sz s = Inl Panic_0x11)"
proof (intro conjI impI)
  show "initializeAdjacencyMatrix env 0 s =
     Inr (s\<lparr>matrixSize := 0, encryptedAdjacencyMatrix := []\<rparr>)"
    using initializeAdjacencyMatrix_fits [of 0 env s] by simp
next
  assume "unat sz * unat sz \<le> 2 ^ 64 - 1"
  then show "initializeAdjacencyMatrix env sz s =
        Inr (s\<lparr>matrixSize := sz,
               encryptedAdjacencyMatrix :=
                 replicate (unat sz * unat sz) (fhe_asEuint32 env 0)\<rparr>)"
    by (rule initializeAdjacencyMatrix_fits)
next
  assume "2 ^ 64 - 1 < unat sz * unat sz \<and> unat sz * unat sz < 2 ^ 256"
  then show "initializeAdjacencyMatrix env sz s = Inl Panic_0x41"
    by (simp add: initializeAdjacencyMatrix_too_large)
next
  assume "\<not> unat sz * unat sz < 2 ^ 256"
  then show "initializeAdjacencyMatrix env sz s = Inl Panic_0x11"
    by (rule initializeAdjacencyMatrix_overflow)
qed

text \<open>
  The theorem at \<open>size = 2\<close>, where four cells are allocated, at \<open>size = 2 ^ 32\<close>, where
  the allocation is refused, and at \<open>size = 2 ^ 128\<close>, where the product overflows.
\<close>

theorem initialize_allocates_witness:
  "unat (2 :: uint256) * unat (2 :: uint256) \<le> 2 ^ 64 - 1 \<and>
   initializeAdjacencyMatrix plain 2 (deployed plain) =
     Inr ((deployed plain)\<lparr>matrixSize := 2, encryptedAdjacencyMatrix := [0, 0, 0, 0]\<rparr>) \<and>
   2 ^ 64 - 1 < unat (2 ^ 32 :: uint256) * unat (2 ^ 32 :: uint256) \<and>
   unat (2 ^ 32 :: uint256) * unat (2 ^ 32 :: uint256) < 2 ^ 256 \<and>
   initializeAdjacencyMatrix plain (2 ^ 32) (deployed plain) = Inl Panic_0x41 \<and>
   \<not> unat (2 ^ 128 :: uint256) * unat (2 ^ 128 :: uint256) < 2 ^ 256 \<and>
   initializeAdjacencyMatrix plain (2 ^ 128) (deployed plain) = Inl Panic_0x11"
proof -
  have a: "unat (2 :: uint256) * unat (2 :: uint256) \<le> 2 ^ 64 - 1" by simp
  have b: "2 ^ 64 - 1 < unat (2 ^ 32 :: uint256) * unat (2 ^ 32 :: uint256) \<and>
           unat (2 ^ 32 :: uint256) * unat (2 ^ 32 :: uint256) < 2 ^ 256" by simp
  have c: "\<not> unat (2 ^ 128 :: uint256) * unat (2 ^ 128 :: uint256) < 2 ^ 256" by simp
  have r: "replicate (unat (2 :: uint256) * unat (2 :: uint256)) (0 :: uint32) = [0, 0, 0, 0]"
    by code_simp
  from a initialize_allocates [of plain "deployed plain" 2]
  have 1: "initializeAdjacencyMatrix plain 2 (deployed plain) =
     Inr ((deployed plain)\<lparr>matrixSize := 2, encryptedAdjacencyMatrix :=
            replicate (unat (2 :: uint256) * unat (2 :: uint256)) (fhe_asEuint32 plain 0)\<rparr>)"
    by blast
  from b initialize_allocates [of plain "deployed plain" "2 ^ 32"]
  have 2: "initializeAdjacencyMatrix plain (2 ^ 32) (deployed plain) = Inl Panic_0x41"
    by blast
  from c initialize_allocates [of plain "deployed plain" "2 ^ 128"]
  have 3: "initializeAdjacencyMatrix plain (2 ^ 128) (deployed plain) = Inl Panic_0x11"
    by blast
  have 4: "initializeAdjacencyMatrix plain 2 (deployed plain) =
     Inr ((deployed plain)\<lparr>matrixSize := 2, encryptedAdjacencyMatrix := [0, 0, 0, 0]\<rparr>)"
    unfolding 1 r [symmetric] by (simp add: plain_def)
  from a b c 2 3 4 show ?thesis by blast
qed

text \<open>
  The claim as stated fails at \<open>size = 0\<close>: on the freshly deployed contract the call
  succeeds and leaves the storage as it was.
\<close>

theorem initialize_zero_counterexample:
  "initializeAdjacencyMatrix plain 0 (deployed plain) = Inr (deployed plain)"
  by (simp add: initializeAdjacencyMatrix_fits deployed_def)

text \<open>
  C8. In every storage the contract can reach, for \<open>from < matrixSize\<close> and
  \<open>to < matrixSize\<close>: \<open>addEncryptedEdge(from, to, weight)\<close> succeeds and
  \<open>getAdjacencyElement(from, to)\<close> then returns \<open>weight\<close>; setting the same cell again to
  \<open>weight2\<close> makes it return \<open>weight2\<close> (the cell is overwritten, not accumulated). When
  \<open>from >= matrixSize\<close> or \<open>to >= matrixSize\<close> both functions revert with "Invalid index".
\<close>

theorem edge_set_get:
  assumes "s = run env cs (deployed env)"
  shows "(from < matrixSize s \<and> to < matrixSize s \<longrightarrow>
           (\<exists>s1 s2. addEncryptedEdge from to weight s = Inr s1 \<and>
              getAdjacencyElement from to s1 = Inr weight \<and>
              addEncryptedEdge from to weight2 s1 = Inr s2 \<and>
              getAdjacencyElement from to s2 = Inr weight2)) \<and>
         (\<not> (from < matrixSize s \<and> to < matrixSize s) \<longrightarrow>
            addEncryptedEdge from to weight s = Inl InvalidIndex \<and>
            getAdjacencyElement from to s = Inl InvalidIndex)"
proof (intro conjI impI)
  assume lt: "from < matrixSize s \<and> to < matrixSize s"
  have inv: "matrix_inv s"
    using assms by (simp add: matrix_inv_run matrix_inv_deployed)
  let ?k = "unat from * unat (matrixSize s) + unat to"
  let ?s1 = "s\<lparr>encryptedAdjacencyMatrix := (encryptedAdjacencyMatrix s)[?k := weight]\<rparr>"
  let ?s2 = "?s1\<lparr>encryptedAdjacencyMatrix := (encryptedAdjacencyMatrix ?s1)[?k := weight2]\<rparr>"
  have k: "?k < length (encryptedAdjacencyMatrix s)"
    using cell_index_ok(2) [OF inv] lt by blast
  have a1: "addEncryptedEdge from to weight s = Inr ?s1"
    using addEncryptedEdge_ok [OF inv] lt by blast
  have inv1: "matrix_inv ?s1" "from < matrixSize ?s1" "to < matrixSize ?s1"
    using inv lt by (simp_all add: matrix_inv_def)
  have g1: "getAdjacencyElement from to ?s1 = Inr weight"
    using getAdjacencyElement_ok [OF inv1] k by simp
  have a2: "addEncryptedEdge from to weight2 ?s1 = Inr ?s2"
    using addEncryptedEdge_ok [OF inv1] by simp
  have inv2: "matrix_inv ?s2" "from < matrixSize ?s2" "to < matrixSize ?s2"
    using inv lt by (simp_all add: matrix_inv_def)
  have g2: "getAdjacencyElement from to ?s2 = Inr weight2"
    using getAdjacencyElement_ok [OF inv2] k by simp
  from a1 g1 a2 g2
  show "\<exists>s1 s2. addEncryptedEdge from to weight s = Inr s1 \<and>
          getAdjacencyElement from to s1 = Inr weight \<and>
          addEncryptedEdge from to weight2 s1 = Inr s2 \<and>
          getAdjacencyElement from to s2 = Inr weight2"
    by blast
next
  assume n: "\<not> (from < matrixSize s \<and> to < matrixSize s)"
  show "addEncryptedEdge from to weight s = Inl InvalidIndex"
    unfolding addEncryptedEdge_def by (rule if_not_P) (rule n)
next
  assume n: "\<not> (from < matrixSize s \<and> to < matrixSize s)"
  show "getAdjacencyElement from to s = Inl InvalidIndex"
    unfolding getAdjacencyElement_def by (rule if_not_P) (rule n)
qed

text \<open>
  The theorem on the storage after \<open>initializeAdjacencyMatrix(2)\<close>: the cell \<open>(0, 1)\<close> is
  set to 7 and then to 9, and the index \<open>(2, 0)\<close> is out of range.
\<close>

theorem edge_set_get_witness:
  "(0 :: uint256) < matrixSize (run plain [InitializeAdjacencyMatrix 2] (deployed plain)) \<and>
   (1 :: uint256) < matrixSize (run plain [InitializeAdjacencyMatrix 2] (deployed plain)) \<and>
   (\<exists>s1 s2.
      addEncryptedEdge 0 1 7 (run plain [InitializeAdjacencyMatrix 2] (deployed plain)) = Inr s1 \<and>
      getAdjacencyElement 0 1 s1 = Inr 7 \<and>
      addEncryptedEdge 0 1 9 s1 = Inr s2 \<and>
      getAdjacencyElement 0 1 s2 = Inr (9 :: uint32)) \<and>
   \<not> (2 :: uint256) < matrixSize (run plain [InitializeAdjacencyMatrix 2] (deployed plain)) \<and>
   addEncryptedEdge 2 0 7 (run plain [InitializeAdjacencyMatrix 2] (deployed plain))
     = Inl InvalidIndex \<and>
   getAdjacencyElement 2 0 (run plain [InitializeAdjacencyMatrix 2] (deployed plain))
     = Inl InvalidIndex"
proof -
  let ?s = "run plain [InitializeAdjacencyMatrix 2] (deployed plain)"
  have sz: "matrixSize ?s = 2"
    by (simp add: step_def initializeAdjacencyMatrix_fits)
  have a: "(0 :: uint256) < matrixSize ?s \<and> 1 < matrixSize ?s" unfolding sz by simp
  have b: "\<not> (2 :: uint256) < matrixSize ?s" unfolding sz by simp
  from a edge_set_get [OF refl, of 0 plain "[InitializeAdjacencyMatrix 2]" 1 7 9]
  have 1: "\<exists>s1 s2. addEncryptedEdge 0 1 7 ?s = Inr s1 \<and>
      getAdjacencyElement 0 1 s1 = Inr 7 \<and>
      addEncryptedEdge 0 1 9 s1 = Inr s2 \<and>
      getAdjacencyElement 0 1 s2 = Inr (9 :: uint32)" by blast
  from b edge_set_get [OF refl, of 2 plain "[InitializeAdjacencyMatrix 2]" 0 7 7]
  have 2: "addEncryptedEdge 2 0 7 ?s = Inl InvalidIndex \<and>
     getAdjacencyElement 2 0 ?s = Inl InvalidIndex" by blast
  from a b 1 2 show ?thesis by blast
qed

section \<open>The reveal protocol\<close>

lemma build_ciphertexts_fits:
  assumes "length (encryptedRingMembers r) + 1 < 2 ^ 256"
  shows "build_ciphertexts env r =
     Inr (map (fhe_toBytes32 env) (encryptedRingMembers r)
          @ [fhe_toBytes32 env (encryptedRiskScore r)])"
proof -
  let ?ms = "encryptedRingMembers r"
  let ?n = "length ?ms"
  let ?v = "fhe_toBytes32 env (encryptedRiskScore r)"
  obtain cts where
    c: "ciphertexts_loop env 0 ?ms (replicate (?n + 1) 0) = Inr cts" "length cts = ?n + 1"
       "\<forall>k < ?n + 1. cts ! k =
          (if k < ?n then fhe_toBytes32 env (?ms ! k) else replicate (?n + 1) 0 ! k)"
    using ciphertexts_loop_inv [of ?ms "replicate (?n + 1) 0" env 0] by auto
  have w: "array_set cts ?n ?v = Inr (cts[?n := ?v])"
    using c(2) by (simp add: array_set_def)
  have "cts[?n := ?v] = map (fhe_toBytes32 env) ?ms @ [?v]"
  proof (rule nth_equalityI)
    show "length (cts[?n := ?v]) = length (map (fhe_toBytes32 env) ?ms @ [?v])"
      using c(2) by simp
  next
    fix k assume "k < length (cts[?n := ?v])"
    then have k: "k < ?n + 1" using c(2) by simp
    show "cts[?n := ?v] ! k = (map (fhe_toBytes32 env) ?ms @ [?v]) ! k"
    proof (cases "k < ?n")
      case True
      with c(2,3) k show ?thesis by (simp add: nth_append)
    next
      case False
      with k have "k = ?n" by simp
      with c(2) show ?thesis by (simp add: nth_append)
    qed
  qed
  with assms c(1) w show ?thesis by (simp add: build_ciphertexts_def)
qed

lemma build_ciphertexts_Inr:
  "build_ciphertexts env r = Inr cts \<Longrightarrow>
   cts = map (fhe_toBytes32 env) (encryptedRingMembers r)
         @ [fhe_toBytes32 env (encryptedRiskScore r)]"
  by (cases "length (encryptedRingMembers r) + 1 < 2 ^ 256")
     (simp_all add: build_ciphertexts_fits, simp add: build_ciphertexts_def)

lemma members_loop_take:
  "members_loop 0 results (replicate (length results - 1) 0) =
     Inr (take (length results - 1) results)"
proof -
  let ?n = "length results - 1"
  obtain ms where
    m: "members_loop 0 results (replicate ?n 0) = Inr ms" "length ms = ?n"
       "\<forall>k < ?n. ms ! k = results ! k"
    using members_loop_inv [of results "replicate ?n 0" 0] by auto
  have "ms = take ?n results"
    using m(2,3) by (intro nth_equalityI) simp_all
  with m(1) show ?thesis by simp
qed

lemma members_loop_take_Suc:
  "members_loop 0 results (replicate (length results - Suc 0) 0) =
     Inr (take (length results - Suc 0) results)"
  using members_loop_take [of results] by simp

text \<open>What a successful callback has checked and written.\<close>

lemma decryptAnalysisResult_Inr:
  assumes "decryptAnalysisResult env t c p s = Inr s'"
  obtains rs where
    "requestToAnalysisId s t \<noteq> 0"
    "\<not> isRevealed (decryptedResults s (requestToAnalysisId s t))"
    "fhe_checkSignatures env t c p"
    "abi_decode env c = Some rs" "0 < length rs"
    "s' = s\<lparr>decryptedResults := (decryptedResults s)(requestToAnalysisId s t :=
               (decryptedResults s (requestToAnalysisId s t))
                 \<lparr>ringMembers := take (length rs - 1) rs,
                  riskScore := rs ! (length rs - 1), isRevealed := True\<rparr>),
             events := events s @ [ResultRevealed (requestToAnalysisId s t)]\<rparr>"
  using assms
  by (auto simp: decryptAnalysisResult_def Let_def members_loop_take_Suc array_get_def
        split: if_splits option.splits)

lemma decryptAnalysisResult_ok:
  assumes "requestToAnalysisId s t \<noteq> 0"
    "\<not> isRevealed (decryptedResults s (requestToAnalysisId s t))"
    "fhe_checkSignatures env t c p"
    "abi_decode env c = Some rs" "0 < length rs"
  shows "decryptAnalysisResult env t c p s =
     Inr (s\<lparr>decryptedResults := (decryptedResults s)(requestToAnalysisId s t :=
               (decryptedResults s (requestToAnalysisId s t))
                 \<lparr>ringMembers := take (length rs - 1) rs,
                  riskScore := rs ! (length rs - 1), isRevealed := True\<rparr>),
             events := events s @ [ResultRevealed (requestToAnalysisId s t)]\<rparr>)"
  using assms
  by (simp add: decryptAnalysisResult_def Let_def members_loop_take_Suc array_get_def)

lemma requestResultDecryption_Inr:
  assumes "requestResultDecryption env reqId a s = Inr (cts, s')"
  shows "isComplete (analysisResults s a)" "\<not> isRevealed (decryptedResults s a)"
    "cts = map (fhe_toBytes32 env) (encryptedRingMembers (analysisResults s a))
           @ [fhe_toBytes32 env (encryptedRiskScore (analysisResults s a))]"
    "s' = s\<lparr>requestToAnalysisId := (requestToAnalysisId s)(reqId := a)\<rparr>"
  using assms
  by (auto simp: requestResultDecryption_def split: if_splits sum.splits
        dest: build_ciphertexts_Inr)

lemma requestResultDecryption_ok:
  assumes "isComplete (analysisResults s a)" "\<not> isRevealed (decryptedResults s a)"
    "length (encryptedRingMembers (analysisResults s a)) + 1 < 2 ^ 256"
  shows "requestResultDecryption env reqId a s =
     Inr (map (fhe_toBytes32 env) (encryptedRingMembers (analysisResults s a))
            @ [fhe_toBytes32 env (encryptedRiskScore (analysisResults s a))],
          s\<lparr>requestToAnalysisId := (requestToAnalysisId s)(reqId := a)\<rparr>)"
  using assms by (simp add: requestResultDecryption_def build_ciphertexts_fits)

subsection \<open>What one transaction does to the reveal state\<close>

lemma submitEncryptedTransaction_frame:
  "submitEncryptedTransaction now a b x y z s = Inr s' \<Longrightarrow>
   decryptedResults s' = decryptedResults s \<and> requestToAnalysisId s' = requestToAnalysisId s \<and>
   analysisResults s' = analysisResults s"
  by (auto simp: submitEncryptedTransaction_def Let_def split: if_splits)

lemma initializeAdjacencyMatrix_frame:
  "initializeAdjacencyMatrix env sz s = Inr s' \<Longrightarrow>
   decryptedResults s' = decryptedResults s \<and> requestToAnalysisId s' = requestToAnalysisId s \<and>
   analysisResults s' = analysisResults s"
  by (drule initializeAdjacencyMatrix_Inr(2)) simp

lemma addEncryptedEdge_frame:
  "addEncryptedEdge i j w s = Inr s' \<Longrightarrow>
   decryptedResults s' = decryptedResults s \<and> requestToAnalysisId s' = requestToAnalysisId s \<and>
   analysisResults s' = analysisResults s"
  by (auto simp: addEncryptedEdge_def split: if_splits sum.splits)

lemma startRingDetection_frame:
  "startRingDetection now s = Inr s' \<Longrightarrow>
   decryptedResults s' = decryptedResults s \<and> requestToAnalysisId s' = requestToAnalysisId s \<and>
   analysisResults s' = analysisResults s"
  by (auto simp: startRingDetection_def)

lemma step_decryptedResults:
  "decryptedResults (step env c s) a = decryptedResults s a \<or>
   is_store a c \<or>
   (\<exists>t x p. c = DecryptAnalysisResult t x p \<and> requestToAnalysisId s t = a \<and> a \<noteq> 0 \<and>
      \<not> isRevealed (decryptedResults s a) \<and> isRevealed (decryptedResults (step env c s) a))"
proof (cases c)
  case (SubmitEncryptedTransaction now a b x y z)
  then show ?thesis
    by (auto simp: step_def split: sum.splits dest: submitEncryptedTransaction_frame)
next
  case (InitializeAdjacencyMatrix sz)
  then show ?thesis
    by (auto simp: step_def split: sum.splits dest: initializeAdjacencyMatrix_frame)
next
  case (AddEncryptedEdge i j w)
  then show ?thesis
    by (auto simp: step_def split: sum.splits dest: addEncryptedEdge_frame)
next
  case (StartRingDetection now)
  then show ?thesis
    by (auto simp: step_def split: sum.splits dest: startRingDetection_frame)
next
  case (StoreAnalysisResults b ring score)
  then show ?thesis by (simp add: step_def storeAnalysisResults_def)
next
  case (RequestResultDecryption reqId b)
  show ?thesis
  proof (cases "requestResultDecryption env reqId b s")
    case (Inl e)
    with RequestResultDecryption show ?thesis by (simp add: step_def)
  next
    case (Inr r)
    obtain cts s' where r: "r = (cts, s')" by (cases r)
    from requestResultDecryption_Inr(4) [OF Inr [unfolded r]] RequestResultDecryption Inr r
    show ?thesis by (simp add: step_def)
  qed
next
  case (DecryptAnalysisResult t x p)
  show ?thesis
  proof (cases "decryptAnalysisResult env t x p s")
    case (Inl e)
    with DecryptAnalysisResult show ?thesis by (simp add: step_def)
  next
    case (Inr s')
    from Inr obtain rs where
      f: "requestToAnalysisId s t \<noteq> 0"
         "\<not> isRevealed (decryptedResults s (requestToAnalysisId s t))"
         "s' = s\<lparr>decryptedResults := (decryptedResults s)(requestToAnalysisId s t :=
               (decryptedResults s (requestToAnalysisId s t))
                 \<lparr>ringMembers := take (length rs - 1) rs,
                  riskScore := rs ! (length rs - 1), isRevealed := True\<rparr>),
             events := events s @ [ResultRevealed (requestToAnalysisId s t)]\<rparr>"
      by (rule decryptAnalysisResult_Inr)
    have st: "step env c s = s'" using DecryptAnalysisResult Inr by (simp add: step_def)
    show ?thesis
    proof (cases "requestToAnalysisId s t = a")
      case True
      with f st DecryptAnalysisResult show ?thesis by simp
    next
      case False
      with f(3) st show ?thesis by simp
    qed
  qed
qed

lemma step_requestToAnalysisId:
  "requestToAnalysisId (step env c s) t = requestToAnalysisId s t \<or> rebinds t c"
proof (cases c)
  case (SubmitEncryptedTransaction now a b x y z)
  then show ?thesis
    by (auto simp: step_def split: sum.splits dest: submitEncryptedTransaction_frame)
next
  case (InitializeAdjacencyMatrix sz)
  then show ?thesis
    by (auto simp: step_def split: sum.splits dest: initializeAdjacencyMatrix_frame)
next
  case (AddEncryptedEdge i j w)
  then show ?thesis
    by (auto simp: step_def split: sum.splits dest: addEncryptedEdge_frame)
next
  case (StartRingDetection now)
  then show ?thesis
    by (auto simp: step_def split: sum.splits dest: startRingDetection_frame)
next
  case (StoreAnalysisResults b ring score)
  then show ?thesis by (simp add: step_def storeAnalysisResults_def)
next
  case (RequestResultDecryption reqId b)
  show ?thesis
  proof (cases "requestResultDecryption env reqId b s")
    case (Inl e)
    with RequestResultDecryption show ?thesis by (simp add: step_def)
  next
    case (Inr r)
    obtain cts s' where r: "r = (cts, s')" by (cases r)
    from requestResultDecryption_Inr(4) [OF Inr [unfolded r]] RequestResultDecryption Inr r
    show ?thesis by (simp add: step_def)
  qed
next
  case (DecryptAnalysisResult r x p)
  show ?thesis
  proof (cases "decryptAnalysisResult env r x p s")
    case (Inl e)
    with DecryptAnalysisResult show ?thesis by (simp add: step_def)
  next
    case (Inr s')
    from Inr obtain rs where
      "s' = s\<lparr>decryptedResults := (decryptedResults s)(requestToAnalysisId s r :=
               (decryptedResults s (requestToAnalysisId s r))
                 \<lparr>ringMembers := take (length rs - 1) rs,
                  riskScore := rs ! (length rs - 1), isRevealed := True\<rparr>),
             events := events s @ [ResultRevealed (requestToAnalysisId s r)]\<rparr>"
      by (rule decryptAnalysisResult_Inr)
    with DecryptAnalysisResult Inr show ?thesis by (simp add: step_def)
  qed
qed

lemma step_analysisResults:
  "analysisResults (step env c s) a = analysisResults s a \<or> is_store a c"
proof (cases c)
  case (SubmitEncryptedTransaction now a b x y z)
  then show ?thesis
    by (auto simp: step_def split: sum.splits dest: submitEncryptedTransaction_frame)
next
  case (InitializeAdjacencyMatrix sz)
  then show ?thesis
    by (auto simp: step_def split: sum.splits dest: initializeAdjacencyMatrix_frame)
next
  case (AddEncryptedEdge i j w)
  then show ?thesis
    by (auto simp: step_def split: sum.splits dest: addEncryptedEdge_frame)
next
  case (StartRingDetection now)
  then show ?thesis
    by (auto simp: step_def split: sum.splits dest: startRingDetection_frame)
next
  case (StoreAnalysisResults b ring score)
  then show ?thesis by (simp add: step_def storeAnalysisResults_def)
next
  case (RequestResultDecryption reqId b)
  show ?thesis
  proof (cases "requestResultDecryption env reqId b s")
    case (Inl e)
    with RequestResultDecryption show ?thesis by (simp add: step_def)
  next
    case (Inr r)
    obtain cts s' where r: "r = (cts, s')" by (cases r)
    from requestResultDecryption_Inr(4) [OF Inr [unfolded r]] RequestResultDecryption Inr r
    show ?thesis by (simp add: step_def)
  qed
next
  case (DecryptAnalysisResult r x p)
  show ?thesis
  proof (cases "decryptAnalysisResult env r x p s")
    case (Inl e)
    with DecryptAnalysisResult show ?thesis by (simp add: step_def)
  next
    case (Inr s')
    from Inr obtain rs where
      "s' = s\<lparr>decryptedResults := (decryptedResults s)(requestToAnalysisId s r :=
               (decryptedResults s (requestToAnalysisId s r))
                 \<lparr>ringMembers := take (length rs - 1) rs,
                  riskScore := rs ! (length rs - 1), isRevealed := True\<rparr>),
             events := events s @ [ResultRevealed (requestToAnalysisId s r)]\<rparr>"
      by (rule decryptAnalysisResult_Inr)
    with DecryptAnalysisResult Inr show ?thesis by (simp add: step_def)
  qed
qed

lemma step_keeps_complete:
  assumes "isComplete (analysisResults s a)"
  shows "isComplete (analysisResults (step env c s) a)"
proof (cases "is_store a c")
  case True
  then obtain ring score where "c = StoreAnalysisResults a ring score"
    by (cases c) auto
  then show ?thesis by (simp add: step_def storeAnalysisResults_def)
next
  case False
  with assms step_analysisResults [of env c s a] show ?thesis by auto
qed

lemma run_keeps_complete:
  "isComplete (analysisResults s a) \<Longrightarrow> isComplete (analysisResults (run env cs s) a)"
  by (induction cs arbitrary: s) (simp_all add: step_keeps_complete)

lemma step_keeps_revealed:
  "isRevealed (decryptedResults s a) \<Longrightarrow> \<not> is_store a c \<Longrightarrow>
   isRevealed (decryptedResults (step env c s) a)"
  using step_decryptedResults [of env c s a] by auto

lemma run_keeps_revealed:
  "isRevealed (decryptedResults s a) \<Longrightarrow> \<forall>c \<in> set cs. \<not> is_store a c \<Longrightarrow>
   isRevealed (decryptedResults (run env cs s) a)"
  by (induction cs arbitrary: s) (simp_all add: step_keeps_revealed)

lemma run_keeps_token:
  "\<forall>c \<in> set cs. \<not> rebinds t c \<Longrightarrow>
   requestToAnalysisId (run env cs s) t = requestToAnalysisId s t"
proof (induction cs arbitrary: s)
  case Nil
  show ?case by simp
next
  case (Cons c cs)
  from Cons.prems step_requestToAnalysisId [of env c s t]
  have "requestToAnalysisId (step env c s) t = requestToAnalysisId s t" by auto
  with Cons show ?case by simp
qed

lemma step_unrevealed_0:
  assumes "\<not> isRevealed (decryptedResults s 0)"
  shows "\<not> isRevealed (decryptedResults (step env c s) 0)"
proof (cases "is_store 0 c")
  case True
  then obtain ring score where "c = StoreAnalysisResults 0 ring score"
    by (cases c) auto
  then show ?thesis by (simp add: step_def storeAnalysisResults_def)
next
  case False
  with assms step_decryptedResults [of env c s 0] show ?thesis by auto
qed

lemma run_unrevealed_0:
  "\<not> isRevealed (decryptedResults s 0) \<Longrightarrow> \<not> isRevealed (decryptedResults (run env cs s) 0)"
  by (induction cs arbitrary: s) (simp_all add: step_unrevealed_0)

text \<open>The equations that evaluate a run of transactions on a concrete storage.\<close>

lemmas run_eval = step_def storeAnalysisResults_def requestResultDecryption_def
  build_ciphertexts_def ciphertexts_loop.simps decryptAnalysisResult_def members_loop.simps
  array_get_def array_set_def deployed_def plain_def Let_def
  getDecryptedAnalysisResult_def getEncryptedAnalysisResult_def

section \<open>Claims about the analysis results and the reveal protocol\<close>

text \<open>
  C1 (amended). Once the Decrypted Result of an analysis id has \<open>isRevealed = true\<close>, it
  stays true under every sequence of transactions in which \<open>storeAnalysisResults\<close> is not
  called with that same id (among them \<open>requestResultDecryption\<close>, \<open>decryptAnalysisResult\<close>
  and \<open>storeAnalysisResults\<close> for other ids). A call of \<open>storeAnalysisResults\<close> with that id
  sets \<open>isRevealed\<close> to false again.
\<close>

theorem revealed_until_stored_again:
  "(isRevealed (decryptedResults s a) \<longrightarrow> (\<forall>c \<in> set cs. \<not> is_store a c) \<longrightarrow>
      isRevealed (decryptedResults (run env cs s) a)) \<and>
   \<not> isRevealed (decryptedResults (step env (StoreAnalysisResults a ring score) s) a)"
  by (simp add: run_keeps_revealed step_def storeAnalysisResults_def)

text \<open>
  The theorem after the reveal of analysis 5: a further request, a replayed callback, a
  store under id 6 and a matrix initialisation leave it revealed.
\<close>

theorem revealed_until_stored_again_witness:
  "isRevealed (decryptedResults
     (run plain [StoreAnalysisResults 5 [4, 5, 6] 9, RequestResultDecryption 7 5,
        DecryptAnalysisResult 7 [1, 2, 3] [1, 2, 3]] (deployed plain)) 5) \<and>
   isRevealed (decryptedResults
     (run plain [RequestResultDecryption 8 5, DecryptAnalysisResult 7 [8, 9] [8, 9],
        StoreAnalysisResults 6 [] 0, InitializeAdjacencyMatrix 2]
       (run plain [StoreAnalysisResults 5 [4, 5, 6] 9, RequestResultDecryption 7 5,
          DecryptAnalysisResult 7 [1, 2, 3] [1, 2, 3]] (deployed plain))) 5)"
proof -
  let ?s = "run plain [StoreAnalysisResults 5 [4, 5, 6] 9, RequestResultDecryption 7 5,
        DecryptAnalysisResult 7 [1, 2, 3] [1, 2, 3]] (deployed plain)"
  let ?cs = "[RequestResultDecryption 8 5, DecryptAnalysisResult 7 [8, 9] [8, 9],
        StoreAnalysisResults 6 [] 0, InitializeAdjacencyMatrix 2]
        :: (uint32, uint32 list) call list"
  have r: "isRevealed (decryptedResults ?s 5)" by (simp add: run_eval)
  have n: "\<forall>c \<in> set ?cs. \<not> is_store 5 c" by simp
  from r n revealed_until_stored_again [of ?s 5 ?cs plain]
  have "isRevealed (decryptedResults (run plain ?cs ?s) 5)" by blast
  with r show ?thesis by blast
qed

text \<open>
  The claim as stated fails: after store, request and callback analysis 5 is revealed,
  and a second \<open>storeAnalysisResults\<close> for id 5 makes it unrevealed.
\<close>

theorem revealed_reset_counterexample:
  "isRevealed (decryptedResults
     (run plain [StoreAnalysisResults 5 [4, 5, 6] 9, RequestResultDecryption 7 5,
        DecryptAnalysisResult 7 [1, 2, 3] [1, 2, 3]] (deployed plain)) 5) \<and>
   \<not> isRevealed (decryptedResults
     (run plain [StoreAnalysisResults 5 [4, 5, 6] 9, RequestResultDecryption 7 5,
        DecryptAnalysisResult 7 [1, 2, 3] [1, 2, 3],
        StoreAnalysisResults 5 [4, 5, 6] 9] (deployed plain)) 5)"
  by (simp add: run_eval)

text \<open>
  C2 (amended). After a first successful delivery of \<open>decryptAnalysisResult\<close> with a token,
  a second delivery with that token fails with "Already revealed" (not "Invalid request")
  and leaves the storage, and so the Decrypted Result, unchanged; the token-to-analysis-id
  mapping is not invalidated by the first callback: the token still maps to the analysis
  id. This holds directly after the first delivery and after any further transactions
  that neither call \<open>storeAnalysisResults\<close> for that analysis id nor issue a request to
  which the oracle returns the same token.
\<close>

theorem replay_already_revealed:
  assumes "decryptAnalysisResult env t c p s = Inr s1"
    and "\<forall>x \<in> set cs. \<not> is_store (requestToAnalysisId s t) x \<and> \<not> rebinds t x"
  shows "decryptAnalysisResult env t c' p' (run env cs s1) = Inl AlreadyRevealed \<and>
         step env (DecryptAnalysisResult t c' p') (run env cs s1) = run env cs s1 \<and>
         requestToAnalysisId (run env cs s1) t = requestToAnalysisId s t \<and>
         requestToAnalysisId s t \<noteq> 0"
proof -
  let ?a = "requestToAnalysisId s t"
  from assms(1) obtain rs where
    f: "?a \<noteq> 0"
       "s1 = s\<lparr>decryptedResults := (decryptedResults s)(?a :=
               (decryptedResults s ?a)
                 \<lparr>ringMembers := take (length rs - 1) rs,
                  riskScore := rs ! (length rs - 1), isRevealed := True\<rparr>),
             events := events s @ [ResultRevealed ?a]\<rparr>"
    by (rule decryptAnalysisResult_Inr)
  have r1: "isRevealed (decryptedResults s1 ?a)" and t1: "requestToAnalysisId s1 t = ?a"
    using f(2) by simp_all
  have r2: "isRevealed (decryptedResults (run env cs s1) ?a)"
    using r1 assms(2) by (intro run_keeps_revealed) simp_all
  have t2: "requestToAnalysisId (run env cs s1) t = ?a"
    using t1 assms(2) run_keeps_token [of cs t env s1] by simp
  have d: "decryptAnalysisResult env t c' p' (run env cs s1) = Inl AlreadyRevealed"
    using r2 t2 f(1) by (simp add: decryptAnalysisResult_def)
  then have "step env (DecryptAnalysisResult t c' p') (run env cs s1) = run env cs s1"
    by (simp add: step_def)
  with d t2 f(1) show ?thesis by simp
qed

text \<open>
  The theorem for token 7 of analysis 5, replayed after a request under token 8 and a
  store under id 6.
\<close>

theorem replay_already_revealed_witness:
  "\<not> isl (decryptAnalysisResult plain 7 [1, 2, 3] [1, 2, 3]
     (run plain [StoreAnalysisResults 5 [4, 5, 6] 9, RequestResultDecryption 7 5]
        (deployed plain))) \<and>
   decryptAnalysisResult plain 7 [8, 9] [8, 9]
     (run plain [RequestResultDecryption 8 5, StoreAnalysisResults 6 [] 0]
        (run plain [StoreAnalysisResults 5 [4, 5, 6] 9, RequestResultDecryption 7 5,
           DecryptAnalysisResult 7 [1, 2, 3] [1, 2, 3]] (deployed plain)))
     = Inl AlreadyRevealed \<and>
   requestToAnalysisId
     (run plain [RequestResultDecryption 8 5, StoreAnalysisResults 6 [] 0]
        (run plain [StoreAnalysisResults 5 [4, 5, 6] 9, RequestResultDecryption 7 5,
           DecryptAnalysisResult 7 [1, 2, 3] [1, 2, 3]] (deployed plain))) 7 = 5"
proof -
  let ?s = "run plain [StoreAnalysisResults 5 [4, 5, 6] 9, RequestResultDecryption 7 5]
        (deployed plain)"
  let ?s1 = "run plain [StoreAnalysisResults 5 [4, 5, 6] 9, RequestResultDecryption 7 5,
           DecryptAnalysisResult 7 [1, 2, 3] [1, 2, 3]] (deployed plain)"
  let ?cs = "[RequestResultDecryption 8 5, StoreAnalysisResults 6 [] 0]
        :: (uint32, uint32 list) call list"
  have a: "requestToAnalysisId ?s 7 = 5" by (simp add: run_eval)
  have d: "decryptAnalysisResult plain 7 [1, 2, 3] [1, 2, 3] ?s = Inr ?s1"
    by (simp add: run_eval)
  have n: "\<forall>x \<in> set ?cs. \<not> is_store (requestToAnalysisId ?s 7) x \<and> \<not> rebinds 7 x"
    unfolding a by simp
  from replay_already_revealed [OF d n, of "[8, 9]" "[8, 9]"] a d
  show ?thesis by simp
qed

text \<open>
  The claim as stated fails: the replay of token 7 directly after its successful delivery
  is rejected with "Already revealed", and token 7 still maps to analysis 5.
\<close>

theorem replay_counterexample:
  "\<not> isl (decryptAnalysisResult plain 7 [1, 2, 3] [1, 2, 3]
     (run plain [StoreAnalysisResults 5 [4, 5, 6] 9, RequestResultDecryption 7 5]
        (deployed plain))) \<and>
   decryptAnalysisResult plain 7 [1, 2, 3] [1, 2, 3]
     (run plain [StoreAnalysisResults 5 [4, 5, 6] 9, RequestResultDecryption 7 5,
        DecryptAnalysisResult 7 [1, 2, 3] [1, 2, 3]] (deployed plain)) \<noteq> Inl InvalidRequest \<and>
   requestToAnalysisId
     (run plain [StoreAnalysisResults 5 [4, 5, 6] 9, RequestResultDecryption 7 5,
        DecryptAnalysisResult 7 [1, 2, 3] [1, 2, 3]] (deployed plain)) 7 = 5"
  by (simp add: run_eval)

text \<open>
  C3 (amended). The contract keeps no record of live requests and has no
  RequestAlreadyPending failure. While a request issued for an analysis id has not
  completed (and at every later moment, the oracle never returning the same token
  twice), its token still maps to the id, the result is complete, and a further
  \<open>requestResultDecryption\<close> for the id is never rejected for the pending one: it fails
  with "Already revealed" when the result has meanwhile been revealed, through the
  callback of another token; otherwise it succeeds, hands the batch of the result stored
  at that moment to the oracle and maps the new token to the id as well, the earlier
  token keeping its mapping, so that several live tokens for one analysis id exist.
  Directly after the first request the second one succeeds with the same batch.
\<close>

theorem request_while_pending:
  assumes "requestResultDecryption env r1 a s0 = Inr (cts, s1)"
    and "\<forall>x \<in> set cs. \<not> rebinds r1 x"
  shows "requestResultDecryption env r2 a s1 =
           Inr (cts, s1\<lparr>requestToAnalysisId := (requestToAnalysisId s1)(r2 := a)\<rparr>) \<and>
         (let s = run env cs s1;
              s' = s\<lparr>requestToAnalysisId := (requestToAnalysisId s)(r2 := a)\<rparr> in
          requestToAnalysisId s r1 = a \<and> isComplete (analysisResults s a) \<and>
          (isRevealed (decryptedResults s a) \<longrightarrow>
             requestResultDecryption env r2 a s = Inl AlreadyRevealed) \<and>
          (\<not> isRevealed (decryptedResults s a) \<longrightarrow>
           length (encryptedRingMembers (analysisResults s a)) + 1 < 2 ^ 256 \<longrightarrow>
             requestResultDecryption env r2 a s =
               Inr (map (fhe_toBytes32 env) (encryptedRingMembers (analysisResults s a))
                      @ [fhe_toBytes32 env (encryptedRiskScore (analysisResults s a))], s') \<and>
             requestToAnalysisId s' r1 = a \<and> requestToAnalysisId s' r2 = a) \<and>
          (\<not> isRevealed (decryptedResults s a) \<longrightarrow>
           \<not> length (encryptedRingMembers (analysisResults s a)) + 1 < 2 ^ 256 \<longrightarrow>
             requestResultDecryption env r2 a s = Inl Panic_0x11))"
proof -
  have s1: "s1 = s0\<lparr>requestToAnalysisId := (requestToAnalysisId s0)(r1 := a)\<rparr>"
    by (rule requestResultDecryption_Inr(4) [OF assms(1)])
  have c0: "isComplete (analysisResults s0 a)" and u0: "\<not> isRevealed (decryptedResults s0 a)"
    by (rule requestResultDecryption_Inr(1,2) [OF assms(1)])+
  have b: "build_ciphertexts env (analysisResults s0 a) = Inr cts"
    using assms(1) c0 u0 by (simp add: requestResultDecryption_def split: sum.splits)
  have first: "requestResultDecryption env r2 a s1 =
          Inr (cts, s1\<lparr>requestToAnalysisId := (requestToAnalysisId s1)(r2 := a)\<rparr>)"
    using c0 u0 b by (simp add: requestResultDecryption_def s1)
  define s where "s = run env cs s1"
  define s' where "s' = s\<lparr>requestToAnalysisId := (requestToAnalysisId s)(r2 := a)\<rparr>"
  have t: "requestToAnalysisId s r1 = a"
    using run_keeps_token [OF assms(2), of env s1] by (simp add: s_def s1)
  have c: "isComplete (analysisResults s a)"
    unfolding s_def using c0 by (intro run_keeps_complete) (simp add: s1)
  have rev: "requestResultDecryption env r2 a s = Inl AlreadyRevealed"
    if "isRevealed (decryptedResults s a)"
    using that c by (simp add: requestResultDecryption_def)
  have ok: "requestResultDecryption env r2 a s =
               Inr (map (fhe_toBytes32 env) (encryptedRingMembers (analysisResults s a))
                      @ [fhe_toBytes32 env (encryptedRiskScore (analysisResults s a))], s') \<and>
             requestToAnalysisId s' r1 = a \<and> requestToAnalysisId s' r2 = a"
    if "\<not> isRevealed (decryptedResults s a)"
      "length (encryptedRingMembers (analysisResults s a)) + 1 < 2 ^ 256"
    using requestResultDecryption_ok [OF c that, of env r2] t by (simp add: s'_def)
  have big: "requestResultDecryption env r2 a s = Inl Panic_0x11"
    if "\<not> isRevealed (decryptedResults s a)"
      "\<not> length (encryptedRingMembers (analysisResults s a)) + 1 < 2 ^ 256"
    using that c by (simp add: requestResultDecryption_def build_ciphertexts_def)
  from first t c rev ok big show ?thesis
    unfolding Let_def s_def [symmetric] s'_def [symmetric] by blast
qed

text \<open>
  The theorem for analysis 5 and the request under token 7. Directly after it the
  request under token 8 gets the same batch. After that request and the callback of
  token 7, token 8 is still pending and a request under token 9 fails with
  "Already revealed". After a second store under id 5 the request under token 8 gets the
  batch of the new result.
\<close>

theorem request_while_pending_witness:
  "requestResultDecryption plain 7 5
      (run plain [StoreAnalysisResults 5 [4, 5, 6] 9] (deployed plain)) =
     Inr ([4, 5, 6, 9],
          run plain [StoreAnalysisResults 5 [4, 5, 6] 9, RequestResultDecryption 7 5]
            (deployed plain)) \<and>
   map_sum id fst (requestResultDecryption plain 8 5
      (run plain [StoreAnalysisResults 5 [4, 5, 6] 9, RequestResultDecryption 7 5]
         (deployed plain))) = Inr [4, 5, 6, 9] \<and>
   isRevealed (decryptedResults
      (run plain [RequestResultDecryption 8 5, DecryptAnalysisResult 7 [1, 2, 3] [1, 2, 3]]
         (run plain [StoreAnalysisResults 5 [4, 5, 6] 9, RequestResultDecryption 7 5]
            (deployed plain))) 5) \<and>
   requestToAnalysisId
      (run plain [RequestResultDecryption 8 5, DecryptAnalysisResult 7 [1, 2, 3] [1, 2, 3]]
         (run plain [StoreAnalysisResults 5 [4, 5, 6] 9, RequestResultDecryption 7 5]
            (deployed plain))) 8 = 5 \<and>
   requestResultDecryption plain 9 5
      (run plain [RequestResultDecryption 8 5, DecryptAnalysisResult 7 [1, 2, 3] [1, 2, 3]]
         (run plain [StoreAnalysisResults 5 [4, 5, 6] 9, RequestResultDecryption 7 5]
            (deployed plain))) = Inl AlreadyRevealed \<and>
   \<not> isRevealed (decryptedResults
      (run plain [StoreAnalysisResults 5 [1] 2]
         (run plain [StoreAnalysisResults 5 [4, 5, 6] 9, RequestResultDecryption 7 5]
            (deployed plain))) 5) \<and>
   map_sum id fst (requestResultDecryption plain 8 5
      (run plain [StoreAnalysisResults 5 [1] 2]
         (run plain [StoreAnalysisResults 5 [4, 5, 6] 9, RequestResultDecryption 7 5]
            (deployed plain)))) = Inr [1, 2]"
proof -
  let ?s0 = "run plain [StoreAnalysisResults 5 [4, 5, 6] 9] (deployed plain)"
  let ?s1 = "run plain [StoreAnalysisResults 5 [4, 5, 6] 9, RequestResultDecryption 7 5]
            (deployed plain)"
  let ?cs2 = "[RequestResultDecryption 8 5, DecryptAnalysisResult 7 [1, 2, 3] [1, 2, 3]]
        :: (uint32, uint32 list) call list"
  let ?cs3 = "[StoreAnalysisResults 5 [1] 2] :: (uint32, uint32 list) call list"
  have d: "requestResultDecryption plain 7 5 ?s0 = Inr ([4, 5, 6, 9], ?s1)"
    by (simp add: run_eval)
  have n2: "\<forall>x \<in> set ?cs2. \<not> rebinds 7 x" and n3: "\<forall>x \<in> set ?cs3. \<not> rebinds 7 x"
    by simp_all
  have r2: "isRevealed (decryptedResults (run plain ?cs2 ?s1) 5)"
    and t8: "requestToAnalysisId (run plain ?cs2 ?s1) 8 = 5"
    by (simp_all add: run_eval)
  have u3: "\<not> isRevealed (decryptedResults (run plain ?cs3 ?s1) 5)"
    and l3: "length (encryptedRingMembers (analysisResults (run plain ?cs3 ?s1) 5)) + 1 < 2 ^ 256"
    and m3: "encryptedRingMembers (analysisResults (run plain ?cs3 ?s1) 5) = [1]"
      "encryptedRiskScore (analysisResults (run plain ?cs3 ?s1) 5) = 2"
    by (simp_all add: run_eval)
  from request_while_pending [OF d n2, of 8]
  have 1: "map_sum id fst (requestResultDecryption plain 8 5 ?s1) = Inr [4, 5, 6, 9]"
    by simp
  from request_while_pending [OF d n2, of 9] r2
  have 2: "requestResultDecryption plain 9 5 (run plain ?cs2 ?s1) = Inl AlreadyRevealed"
    unfolding Let_def by blast
  from request_while_pending [OF d n3, of 8] u3 l3
  have "requestResultDecryption plain 8 5 (run plain ?cs3 ?s1) =
      Inr (map (fhe_toBytes32 plain) (encryptedRingMembers (analysisResults (run plain ?cs3 ?s1) 5))
             @ [fhe_toBytes32 plain (encryptedRiskScore (analysisResults (run plain ?cs3 ?s1) 5))],
           (run plain ?cs3 ?s1)\<lparr>requestToAnalysisId :=
              (requestToAnalysisId (run plain ?cs3 ?s1))(8 := 5)\<rparr>)"
    unfolding Let_def by blast
  then have 3: "map_sum id fst (requestResultDecryption plain 8 5 (run plain ?cs3 ?s1)) = Inr [1, 2]"
    unfolding m3 by (simp add: plain_def)
  from d 1 r2 t8 2 u3 3 show ?thesis by blast
qed

text \<open>
  The claim as stated fails: with the request under token 7 still pending (analysis 5 is
  not revealed), a second request for analysis 5 does not fail, and afterwards the tokens
  7 and 8 both map to analysis 5.
\<close>

theorem pending_request_counterexample:
  "\<not> isRevealed (decryptedResults
      (run plain [StoreAnalysisResults 5 [4, 5, 6] 9, RequestResultDecryption 7 5]
         (deployed plain)) 5) \<and>
   \<not> isl (requestResultDecryption plain 8 5
      (run plain [StoreAnalysisResults 5 [4, 5, 6] 9, RequestResultDecryption 7 5]
         (deployed plain))) \<and>
   requestToAnalysisId
      (run plain [StoreAnalysisResults 5 [4, 5, 6] 9, RequestResultDecryption 7 5,
         RequestResultDecryption 8 5] (deployed plain)) 7 = 5 \<and>
   requestToAnalysisId
      (run plain [StoreAnalysisResults 5 [4, 5, 6] 9, RequestResultDecryption 7 5,
         RequestResultDecryption 8 5] (deployed plain)) 8 = 5"
  by (simp add: run_eval)

text \<open>
  C4 (amended). \<open>storeAnalysisResults\<close> has no DuplicateAnalysis failure: for every
  analysis id, also one for which a complete result already exists, the call succeeds,
  replaces the stored encrypted result by the new ring members and risk score, and
  resets the Decrypted Result to no members, score 0 and not revealed.
\<close>

theorem store_overwrites:
  "\<exists>s'. storeAnalysisResults a ring score s = Inr s' \<and>
     getEncryptedAnalysisResult a s' = Inr (ring, score) \<and>
     getDecryptedAnalysisResult a s' = Inr ([], 0, False)"
  by (simp add: storeAnalysisResults_def getEncryptedAnalysisResult_def
        getDecryptedAnalysisResult_def)

text \<open>
  The claim as stated fails: analysis 5 is complete and revealed, and a second store
  under id 5 does not fail but replaces both results.
\<close>

theorem duplicate_store_counterexample:
  "getEncryptedAnalysisResult 5
     (run plain [StoreAnalysisResults 5 [4, 5, 6] 9, RequestResultDecryption 7 5,
        DecryptAnalysisResult 7 [1, 2, 3] [1, 2, 3]] (deployed plain)) = Inr ([4, 5, 6], 9) \<and>
   getDecryptedAnalysisResult 5
     (run plain [StoreAnalysisResults 5 [4, 5, 6] 9, RequestResultDecryption 7 5,
        DecryptAnalysisResult 7 [1, 2, 3] [1, 2, 3]] (deployed plain)) = Inr ([1, 2], 3, True) \<and>
   \<not> isl (storeAnalysisResults 5 [1] 2
     (run plain [StoreAnalysisResults 5 [4, 5, 6] 9, RequestResultDecryption 7 5,
        DecryptAnalysisResult 7 [1, 2, 3] [1, 2, 3]] (deployed plain))) \<and>
   getEncryptedAnalysisResult 5
     (run plain [StoreAnalysisResults 5 [4, 5, 6] 9, RequestResultDecryption 7 5,
        DecryptAnalysisResult 7 [1, 2, 3] [1, 2, 3], StoreAnalysisResults 5 [1] 2]
        (deployed plain)) = Inr ([1], 2) \<and>
   getDecryptedAnalysisResult 5
     (run plain [StoreAnalysisResults 5 [4, 5, 6] 9, RequestResultDecryption 7 5,
        DecryptAnalysisResult 7 [1, 2, 3] [1, 2, 3], StoreAnalysisResults 5 [1] 2]
        (deployed plain)) = Inr ([], 0, False)"
  by (simp add: run_eval)

text \<open>
  C9. A successful \<open>requestResultDecryption\<close> hands the oracle the ring-member
  ciphertexts in order, followed by the risk-score ciphertext. A successful
  \<open>decryptAnalysisResult\<close> whose cleartexts decode to the list \<open>p\<close> of length \<open>n\<close> has
  \<open>n > 0\<close> and leaves, for the analysis id of the token, \<open>ringMembers = p[0..n-2]\<close>,
  \<open>riskScore = p[n-1]\<close> and \<open>isRevealed = true\<close>.
\<close>

theorem reveal_by_position:
  "(requestResultDecryption env reqId a s = Inr (cts, s1) \<longrightarrow>
      cts = map (fhe_toBytes32 env) (encryptedRingMembers (analysisResults s a))
            @ [fhe_toBytes32 env (encryptedRiskScore (analysisResults s a))]) \<and>
   (decryptAnalysisResult env t c prf s = Inr s2 \<longrightarrow> abi_decode env c = Some p \<longrightarrow>
      0 < length p \<and>
      ringMembers (decryptedResults s2 (requestToAnalysisId s t)) = take (length p - 1) p \<and>
      riskScore (decryptedResults s2 (requestToAnalysisId s t)) = p ! (length p - 1) \<and>
      isRevealed (decryptedResults s2 (requestToAnalysisId s t)))"
proof (intro conjI impI)
  assume "requestResultDecryption env reqId a s = Inr (cts, s1)"
  then show "cts = map (fhe_toBytes32 env) (encryptedRingMembers (analysisResults s a))
            @ [fhe_toBytes32 env (encryptedRiskScore (analysisResults s a))]"
    by (rule requestResultDecryption_Inr(3))
next
  assume d: "decryptAnalysisResult env t c prf s = Inr s2" and p: "abi_decode env c = Some p"
  let ?a = "requestToAnalysisId s t"
  from d obtain rs where
    f: "abi_decode env c = Some rs" "0 < length rs"
       "s2 = s\<lparr>decryptedResults := (decryptedResults s)(?a :=
               (decryptedResults s ?a)
                 \<lparr>ringMembers := take (length rs - 1) rs,
                  riskScore := rs ! (length rs - 1), isRevealed := True\<rparr>),
             events := events s @ [ResultRevealed ?a]\<rparr>"
    by (rule decryptAnalysisResult_Inr)
  from f(1) p have rs: "rs = p" by simp
  show "0 < length p" using f(2) rs by simp
  show "ringMembers (decryptedResults s2 ?a) = take (length p - 1) p"
    using f(3) rs by simp
  show "riskScore (decryptedResults s2 ?a) = p ! (length p - 1)"
    using f(3) rs by simp
  show "isRevealed (decryptedResults s2 ?a)"
    using f(3) by simp
qed

text \<open>
  The theorem for analysis 5 with ring members 4, 5, 6 and risk score 9: the batch is
  4, 5, 6, 9, and the callback with the cleartexts 1, 2, 3 leaves the members 1, 2 and
  the score 3.
\<close>

theorem reveal_by_position_witness:
  "map_sum id fst (requestResultDecryption plain 7 5
      (run plain [StoreAnalysisResults 5 [4, 5, 6] 9] (deployed plain))) = Inr [4, 5, 6, 9] \<and>
   \<not> isl (decryptAnalysisResult plain 7 [1, 2, 3] [1, 2, 3]
      (run plain [StoreAnalysisResults 5 [4, 5, 6] 9, RequestResultDecryption 7 5]
         (deployed plain))) \<and>
   getDecryptedAnalysisResult 5
      (run plain [StoreAnalysisResults 5 [4, 5, 6] 9, RequestResultDecryption 7 5,
         DecryptAnalysisResult 7 [1, 2, 3] [1, 2, 3]] (deployed plain))
     = Inr ([1, 2], 3, True)"
proof -
  let ?s = "run plain [StoreAnalysisResults 5 [4, 5, 6] 9] (deployed plain)"
  let ?s1 = "run plain [StoreAnalysisResults 5 [4, 5, 6] 9, RequestResultDecryption 7 5]
            (deployed plain)"
  let ?s2 = "run plain [StoreAnalysisResults 5 [4, 5, 6] 9, RequestResultDecryption 7 5,
         DecryptAnalysisResult 7 [1, 2, 3] [1, 2, 3]] (deployed plain)"
  obtain cts where r: "requestResultDecryption plain 7 5 ?s = Inr (cts, ?s1)"
    by (simp add: run_eval)
  have d: "decryptAnalysisResult plain 7 [1, 2, 3] [1, 2, 3] ?s1 = Inr ?s2"
    by (simp add: run_eval)
  have p: "abi_decode plain [1, 2, 3] = Some [1, 2, 3]" by (simp add: plain_def)
  have a: "requestToAnalysisId ?s1 7 = 5" by (simp add: run_eval)
  have m: "encryptedRingMembers (analysisResults ?s 5) = [4, 5, 6]"
    "encryptedRiskScore (analysisResults ?s 5) = 9"
    by (simp_all add: run_eval)
  from reveal_by_position [of plain 7 5 ?s cts ?s1 7 "[1, 2, 3]" "[1, 2, 3]" ?s2 "[1, 2, 3]"]
  have "cts = map (fhe_toBytes32 plain) (encryptedRingMembers (analysisResults ?s 5))
            @ [fhe_toBytes32 plain (encryptedRiskScore (analysisResults ?s 5))]"
    using r by blast
  then have c: "cts = [4, 5, 6, 9]" unfolding m by (simp add: plain_def)
  from reveal_by_position [of plain 7 5 ?s1 cts ?s1 7 "[1, 2, 3]" "[1, 2, 3]" ?s2 "[1, 2, 3]"]
    d p
  have "ringMembers (decryptedResults ?s2 (requestToAnalysisId ?s1 7)) = take (length [1, 2, 3 :: uint32] - 1) [1, 2, 3] \<and>
      riskScore (decryptedResults ?s2 (requestToAnalysisId ?s1 7)) = [1, 2, 3] ! (length [1, 2, 3 :: uint32] - 1) \<and>
      isRevealed (decryptedResults ?s2 (requestToAnalysisId ?s1 7))"
    by blast
  then have g: "getDecryptedAnalysisResult 5 ?s2 = Inr ([1, 2], 3, True)"
    unfolding a by (simp add: getDecryptedAnalysisResult_def Let_def)
  from r c d g show ?thesis by simp
qed

text \<open>
  C10. Analysis id 0 can never be revealed. \<open>storeAnalysisResults\<close> accepts id 0 and
  \<open>requestResultDecryption\<close> accepts id 0 (for a stored result, with fewer than
  \<open>2 ^ 256 - 1\<close> ring members) and maps the token to 0; \<open>decryptAnalysisResult\<close> rejects
  every callback whose token maps to 0 with "Invalid request", as it does for an unknown
  token; and in every storage the contract can reach the Decrypted Result of id 0 is
  not revealed.
\<close>

theorem id_zero_never_revealed:
  "(\<exists>s'. storeAnalysisResults 0 ring score s = Inr s' \<and> isComplete (analysisResults s' 0)) \<and>
   (isComplete (analysisResults s 0) \<longrightarrow> \<not> isRevealed (decryptedResults s 0) \<longrightarrow>
    length (encryptedRingMembers (analysisResults s 0)) + 1 < 2 ^ 256 \<longrightarrow>
      (\<exists>cts s'. requestResultDecryption env reqId 0 s = Inr (cts, s') \<and>
         requestToAnalysisId s' reqId = 0)) \<and>
   (requestToAnalysisId s t = 0 \<longrightarrow> decryptAnalysisResult env t c p s = Inl InvalidRequest) \<and>
   \<not> isRevealed (decryptedResults (run env cs (deployed env)) 0)"
proof (intro conjI impI)
  show "\<exists>s'. storeAnalysisResults 0 ring score s = Inr s' \<and> isComplete (analysisResults s' 0)"
    by (simp add: storeAnalysisResults_def)
next
  assume "isComplete (analysisResults s 0)" "\<not> isRevealed (decryptedResults s 0)"
    "length (encryptedRingMembers (analysisResults s 0)) + 1 < 2 ^ 256"
  from requestResultDecryption_ok [OF this, of env reqId]
  show "\<exists>cts s'. requestResultDecryption env reqId 0 s = Inr (cts, s') \<and>
         requestToAnalysisId s' reqId = 0"
    by simp
next
  assume "requestToAnalysisId s t = 0"
  then show "decryptAnalysisResult env t c p s = Inl InvalidRequest"
    by (simp add: decryptAnalysisResult_def)
next
  have "\<not> isRevealed (decryptedResults (deployed env) 0)" by (simp add: deployed_def)
  then show "\<not> isRevealed (decryptedResults (run env cs (deployed env)) 0)"
    by (rule run_unrevealed_0)
qed

text \<open>
  The theorem for a result stored under id 0 and requested under token 7: the callback
  for token 7 is rejected and the result stays unrevealed.
\<close>

theorem id_zero_never_revealed_witness:
  "isComplete (analysisResults
      (run plain [StoreAnalysisResults 0 [4, 5, 6] 9] (deployed plain)) 0) \<and>
   \<not> isl (requestResultDecryption plain 7 0
      (run plain [StoreAnalysisResults 0 [4, 5, 6] 9] (deployed plain))) \<and>
   requestToAnalysisId
      (run plain [StoreAnalysisResults 0 [4, 5, 6] 9, RequestResultDecryption 7 0]
         (deployed plain)) 7 = 0 \<and>
   decryptAnalysisResult plain 7 [1, 2, 3] [1, 2, 3]
      (run plain [StoreAnalysisResults 0 [4, 5, 6] 9, RequestResultDecryption 7 0]
         (deployed plain)) = Inl InvalidRequest \<and>
   \<not> isRevealed (decryptedResults
      (run plain [StoreAnalysisResults 0 [4, 5, 6] 9, RequestResultDecryption 7 0,
         DecryptAnalysisResult 7 [1, 2, 3] [1, 2, 3]] (deployed plain)) 0)"
proof -
  let ?s = "run plain [StoreAnalysisResults 0 [4, 5, 6] 9] (deployed plain)"
  let ?s1 = "run plain [StoreAnalysisResults 0 [4, 5, 6] 9, RequestResultDecryption 7 0]
         (deployed plain)"
  let ?cs = "[StoreAnalysisResults 0 [4, 5, 6] 9, RequestResultDecryption 7 0,
         DecryptAnalysisResult 7 [1, 2, 3] [1, 2, 3]] :: (uint32, uint32 list) call list"
  have h: "isComplete (analysisResults ?s 0)" "\<not> isRevealed (decryptedResults ?s 0)"
    "length (encryptedRingMembers (analysisResults ?s 0)) + 1 < 2 ^ 256"
    by (simp_all add: run_eval)
  have t: "requestToAnalysisId ?s1 7 = 0" by (simp add: run_eval)
  from id_zero_never_revealed [of "[]" 0 ?s plain 7 7 "[]" "[]" "[]"] h
  have 1: "\<not> isl (requestResultDecryption plain 7 0 ?s)" by auto
  from id_zero_never_revealed [of "[]" 0 ?s1 plain 7 7 "[1, 2, 3]" "[1, 2, 3]" ?cs] t
  have 2: "decryptAnalysisResult plain 7 [1, 2, 3] [1, 2, 3] ?s1 = Inl InvalidRequest"
    and 3: "\<not> isRevealed (decryptedResults (run plain ?cs (deployed plain)) 0)"
    by blast+
  from h(1) 1 t 2 3 show ?thesis by blast
qed

section \<open>Claims about encryptedBFS\<close>

text \<open>
  For every instance of the library, a round that does not revert has written \<open>visited\<close>
  at \<open>FHE.decrypt(current)\<close> and \<open>result\<close> at \<open>FHE.decrypt(index)\<close>, and a round reverts
  only with \<open>Panic(0x32)\<close>, when one of the two decrypted values is not below the length.
\<close>

lemma bfs_round_touches:
  assumes "bfs_round env st = Inr st'"
  shows "\<exists>v r. visited st' = (visited st)[unat (fhe_decrypt env (current st)) := v] \<and>
               result st' = (result st)[unat (fhe_decrypt env (index st)) := r] \<and>
               unat (fhe_decrypt env (current st)) < length (visited st) \<and>
               unat (fhe_decrypt env (index st)) < length (result st)"
  using assms
  by (auto simp: bfs_round_def Let_def array_get_def array_set_def split: if_splits)

lemma bfs_round_Inl: "bfs_round env st = Inl e \<Longrightarrow> e = Panic_0x32"
  by (auto simp: bfs_round_def Let_def array_get_def array_set_def split: if_splits)

lemma bfs_loop_Inl: "bfs_loop env i n st = Inl e \<Longrightarrow> e = Panic_0x32"
proof (induction env i n st rule: bfs_loop.induct)
  case (1 env i n st)
  show ?case
  proof (cases "i < n")
    case True
    show ?thesis
    proof (cases "bfs_round env st")
      case (Inl e')
      with 1(2) True have "e = e'" by (subst (asm) bfs_loop.simps) simp
      with Inl show ?thesis by (simp add: bfs_round_Inl)
    next
      case (Inr st1)
      with 1(2) True have "bfs_loop env (i + 1) n st1 = Inl e"
        by (subst (asm) bfs_loop.simps) simp
      from 1(1) [OF True Inr this] show ?thesis .
    qed
  next
    case False
    with 1(2) show ?thesis by (subst (asm) bfs_loop.simps) simp
  qed
qed

text \<open>
  \<open>encryptedBFS\<close> reverts with "Matrix not initialized" exactly when \<open>matrixSize\<close> is 0, and
  a traversal that returns has run \<open>matrixSize\<close> rounds.
\<close>

lemma bfs_run_MatrixNotInitialized:
  "bfs_run env startNode s = Inl MatrixNotInitialized \<longleftrightarrow> matrixSize s = 0"
proof (cases "matrixSize s = 0")
  case True
  then show ?thesis by (simp add: bfs_run_def)
next
  case False
  let ?n = "unat (matrixSize s)"
  let ?z = "replicate ?n (e_zero env)"
  obtain v q r where i: "bfs_init_loop env 0 ?n (?z, ?z, ?z) = Inr (v, q, r)"
    using bfs_init_loop_inv [of ?n ?z ?z ?z env 0] by auto
  have pos: "0 < matrixSize s" using False by (simp add: word_greater_zero_iff)
  have "bfs_run env startNode s \<noteq> Inl MatrixNotInitialized"
  proof
    assume "bfs_run env startNode s = Inl MatrixNotInitialized"
    with pos i have "bfs_loop env 0 ?n \<lparr>visited = v, queue = q, result = r,
        current = startNode, index = fhe_asEuint32 env 0, rounds = 0\<rparr> = Inl MatrixNotInitialized"
      by (simp add: bfs_run_def)
    from bfs_loop_Inl [OF this] show False by simp
  qed
  with False show ?thesis by simp
qed

lemma bfs_run_rounds:
  assumes "bfs_run env startNode s = Inr st"
  shows "rounds st = unat (matrixSize s)"
proof -
  let ?n = "unat (matrixSize s)"
  let ?z = "replicate ?n (e_zero env)"
  obtain v q r where i: "bfs_init_loop env 0 ?n (?z, ?z, ?z) = Inr (v, q, r)"
    using bfs_init_loop_inv [of ?n ?z ?z ?z env 0] by auto
  have pos: "0 < matrixSize s" using assms by (auto simp: bfs_run_def split: if_splits)
  with assms i have "bfs_loop env 0 ?n \<lparr>visited = v, queue = q, result = r,
        current = startNode, index = fhe_asEuint32 env 0, rounds = 0\<rparr> = Inr st"
    by (simp add: bfs_run_def)
  from bfs_loop_rounds [OF this] show ?thesis by simp
qed

lemma replicate_2: "replicate 2 x = [x, x]"
  by (simp add: numeral_2_eq_2)

lemmas bfs_eval = replicate_2 encryptedBFS_def bfs_run_def bfs_init_loop.simps bfs_loop.simps
  bfs_round_def array_get_def array_set_def plain_def Let_def step_def
  initializeAdjacencyMatrix_fits

text \<open>
  C5. The claim: in every round of the traversal the index into \<open>visited\<close> and \<open>result\<close>
  is the plaintext round counter, never a decrypted value, and no node identity is
  decrypted mid-traversal. The code does otherwise, and the theorem evaluates it where
  the two differ: on a matrix of size 2 with start node 1 the arrays are all zero when
  the traversal loop is entered, and round 0 reads and writes \<open>visited[1]\<close>, the cell at
  the decrypted start node, not \<open>visited[0]\<close>.
\<close>

theorem bfs_round_index_is_decrypted:
  "bfs_init_loop plain 0 2 ([0, 0], [0, 0], [0, 0]) = Inr ([0, 0], [0, 0], [0, 0]) \<and>
   bfs_round plain \<lparr>visited = [0, 0], queue = [0, 0], result = [0, 0], current = 1,
      index = 0, rounds = 0\<rparr> =
     Inr \<lparr>visited = [0, 1], queue = [0, 0], result = [1, 0], current = 2,
      index = 1, rounds = 1\<rparr>"
  by (simp add: bfs_eval)

text \<open>
  C6. The claim: \<open>encryptedBFS\<close> fails with "Matrix not initialized" exactly when
  \<open>matrixSize\<close> is 0, and on a matrix of size \<open>N\<close> the traversal runs exactly \<open>N\<close> rounds.
  The first half holds (\<open>bfs_run_MatrixNotInitialized\<close>), and a traversal that returns has
  run \<open>N\<close> rounds (\<open>bfs_run_rounds\<close>); but the traversal need not return, and the theorem
  evaluates the code where it does not: on a matrix of size 2 with start node 1 the
  second round indexes \<open>visited\<close> at 2 and the call reverts with \<open>Panic(0x32)\<close>. With start
  node 0 it returns.
\<close>

theorem bfs_out_of_bounds:
  "matrixSize (run plain [InitializeAdjacencyMatrix 2] (deployed plain)) = 2 \<and>
   encryptedBFS plain 1 (run plain [InitializeAdjacencyMatrix 2] (deployed plain))
     = Inl Panic_0x32 \<and>
   encryptedBFS plain 0 (run plain [InitializeAdjacencyMatrix 2] (deployed plain))
     = Inr [0, 1]"
  by (simp add: bfs_eval)

end
